theory Spec2Isabelle
  imports Complex_Main "HOL-Library.Monad_Syntax"
begin

section \<open>The forecast aggregation of pysealevel\<close>

text \<open>
  The module \<^verbatim>\<open>src/pysealevel/__init__.py\<close> turns the parsed JSON answer of the forecast
  service into a list of forecast objects: \<^verbatim>\<open>_get_all_forecast_from_api\<close> builds one
  object per entry of the time series and groups the objects by day of month in an
  ordered dictionary, \<^verbatim>\<open>_get_forecast\<close> then walks the groups and produces the current
  entry followed by one aggregated entry per day.

  Conventions of the embedding:
  \<^item> Python raises are values: a function that can raise returns \<open>error + 'a\<close>.
  \<^item> Python \<^verbatim>\<open>float\<close> and JSON numbers are exact rationals (\<^typ>\<open>rat\<close>): binary rounding
    error, infinities and NaN are outside the model.
  \<^item> Forecast objects live in an explicit store (a list, an object's address is its
    index), since \<^verbatim>\<open>_get_forecast\<close> both copies objects and writes to them in place.
\<close>

datatype error = KeyError | IndexError | ValueError | UnboundLocalError

subsection \<open>Python built-ins: \<^verbatim>\<open>int\<close>, \<^verbatim>\<open>round\<close>\<close>

text \<open>\<^verbatim>\<open>int(x)\<close> truncates towards zero.\<close>

definition py_int :: "rat \<Rightarrow> int" where
  "py_int x = (if 0 \<le> x then \<lfloor>x\<rfloor> else \<lceil>x\<rceil>)"

text \<open>\<^verbatim>\<open>round(x)\<close> rounds to the nearest integer, a tie to the even neighbour.\<close>

definition py_round :: "rat \<Rightarrow> int" where
  "py_round x =
     (let f = \<lfloor>x\<rfloor>; d = x - of_int f
      in if d < 1 / 2 then f
         else if 1 / 2 < d then f + 1
         else if even f then f else f + 1)"

text \<open>\<^verbatim>\<open>round(x, ndigits)\<close> keeps \<open>ndigits\<close> decimals, with the same tie rule.\<close>

definition round_ndigits :: "rat \<Rightarrow> nat \<Rightarrow> rat" where
  "round_ndigits x ndigits = of_int (py_round (x * 10 ^ ndigits)) / 10 ^ ndigits"

subsection \<open>\<^verbatim>\<open>datetime\<close>: values, subtraction, \<^verbatim>\<open>strptime\<close>\<close>

record datetime =
  year :: int
  month :: int
  day :: int
  hour :: int
  minute :: int
  second :: int

record timedelta =
  days :: int
  seconds :: int

definition is_leap :: "int \<Rightarrow> bool" where
  "is_leap y = (y mod 4 = 0 \<and> (y mod 100 \<noteq> 0 \<or> y mod 400 = 0))"

definition days_before_year :: "int \<Rightarrow> int" where
  "days_before_year y' = (let y = y' - 1 in y * 365 + y div 4 - y div 100 + y div 400)"

definition DAYS_IN_MONTH :: "int list" where
  "DAYS_IN_MONTH = [-1, 31, 28, 31, 30, 31, 30, 31, 31, 30, 31, 30, 31]"

definition DAYS_BEFORE_MONTH :: "int list" where
  "DAYS_BEFORE_MONTH = [-1, 0, 31, 59, 90, 120, 151, 181, 212, 243, 273, 304, 334]"

definition days_in_month :: "int \<Rightarrow> int \<Rightarrow> int" where
  "days_in_month y m = (if m = 2 \<and> is_leap y then 29 else DAYS_IN_MONTH ! nat m)"

definition days_before_month :: "int \<Rightarrow> int \<Rightarrow> int" where
  "days_before_month y m =
     DAYS_BEFORE_MONTH ! nat m + (if 2 < m \<and> is_leap y then 1 else 0)"

definition toordinal :: "datetime \<Rightarrow> int" where
  "toordinal t = days_before_year (year t) + days_before_month (year t) (month t) + day t"

definition seconds_of_day :: "datetime \<Rightarrow> int" where
  "seconds_of_day t = second t + minute t * 60 + hour t * 3600"

text \<open>
  \<^verbatim>\<open>a - b\<close> on two datetimes: a \<^verbatim>\<open>timedelta\<close> is kept normalised, \<open>0 \<le> seconds < 86400\<close>,
  the whole days carried into \<open>days\<close> (which may be negative).
\<close>

definition datetime_sub :: "datetime \<Rightarrow> datetime \<Rightarrow> timedelta" where
  "datetime_sub a b =
     (let d = toordinal a - toordinal b;
          s = seconds_of_day a - seconds_of_day b
      in \<lparr>days = d + s div 86400, seconds = s mod 86400\<rparr>)"

definition total_seconds :: "timedelta \<Rightarrow> int" where
  "total_seconds td = days td * 86400 + seconds td"

text \<open>
  \<^verbatim>\<open>datetime.strptime(s, "%Y-%m-%dT%H:%M:%SZ")\<close>. The format's directives are the
  regular expressions \<^verbatim>\<open>\d\d\d\d\<close> for \<^verbatim>\<open>%Y\<close> and one or two digits in a range for the
  others (\<^verbatim>\<open>%d\<close> also takes a blank and a digit); each is followed by a literal that is
  not a digit, so a field is the whole run of digits before the literal. Letters match
  without regard to case, nothing may follow the \<^verbatim>\<open>Z\<close>, and the datetime constructor
  then refuses year 0, a day the month does not have and a second above 59.
  \<open>None\<close> stands for the \<^verbatim>\<open>ValueError\<close>.
\<close>

definition digit :: "char \<Rightarrow> int option" where
  "digit c = (if c \<in> set ''0123456789'' then Some (of_char c - 48) else None)"

fun year_field :: "string \<Rightarrow> (int \<times> string) option" where
  "year_field (a # b # c # d # s) =
     do { w \<leftarrow> digit a; x \<leftarrow> digit b; y \<leftarrow> digit c; z \<leftarrow> digit d;
          Some (1000 * w + 100 * x + 10 * y + z, s) }"
| "year_field _ = None"

fun digits_field :: "string \<Rightarrow> (int \<times> string) option" where
  "digits_field [] = None"
| "digits_field (a # s) =
     do { x \<leftarrow> digit a;
          case s of
            [] \<Rightarrow> Some (x, s)
          | b # s' \<Rightarrow> (case digit b of None \<Rightarrow> Some (x, s) | Some y \<Rightarrow> Some (10 * x + y, s')) }"

definition ranged_field :: "int \<Rightarrow> int \<Rightarrow> string \<Rightarrow> (int \<times> string) option" where
  "ranged_field lo hi s =
     do { (v, s') \<leftarrow> digits_field s; if lo \<le> v \<and> v \<le> hi then Some (v, s') else None }"

definition day_field :: "string \<Rightarrow> (int \<times> string) option" where
  "day_field s =
     (case s of
        a # b # s' \<Rightarrow>
          if a = CHR '' '' then do { x \<leftarrow> digit b; if 1 \<le> x then Some (x, s') else None }
          else ranged_field 1 31 s
      | _ \<Rightarrow> ranged_field 1 31 s)"

definition literal :: "string \<Rightarrow> string \<Rightarrow> string option" where
  "literal cs s = (case s of [] \<Rightarrow> None | c # s' \<Rightarrow> if c \<in> set cs then Some s' else None)"

definition strptime :: "string \<Rightarrow> datetime option" where
  "strptime s0 =
     do { (Y, s1) \<leftarrow> year_field s0;
          s2 \<leftarrow> literal ''-'' s1;
          (m, s3) \<leftarrow> ranged_field 1 12 s2;
          s4 \<leftarrow> literal ''-'' s3;
          (d, s5) \<leftarrow> day_field s4;
          s6 \<leftarrow> literal ''Tt'' s5;
          (H, s7) \<leftarrow> ranged_field 0 23 s6;
          s8 \<leftarrow> literal '':'' s7;
          (M, s9) \<leftarrow> ranged_field 0 59 s8;
          s10 \<leftarrow> literal '':'' s9;
          (S, s11) \<leftarrow> ranged_field 0 61 s10;
          s12 \<leftarrow> literal ''Zz'' s11;
          if s12 = [] \<and> 1 \<le> Y \<and> d \<le> days_in_month Y m \<and> S \<le> 59
          then Some \<lparr>year = Y, month = m, day = d, hour = H, minute = M, second = S\<rparr>
          else None }"

subsection \<open>The input and the forecast objects\<close>

text \<open>
  The parsed JSON, typed as the service delivers it: an object that may or may not have
  the key \<^verbatim>\<open>timeSeries\<close>; each entry has a \<^verbatim>\<open>validTime\<close> string and a list of parameters;
  each parameter has a name and a list of numbers.
\<close>

record param =
  name :: string
  "values" :: "rat list"

record entry =
  validTime :: string
  parameters :: "param list"

record api_result =
  timeSeries :: "entry list option"

text \<open>
  Modelled from the spec: the class \<^verbatim>\<open>SmhiForecast\<close> is used by the module but declared
  nowhere in it. It is the plain data object of spec section 3; the fields are the sixteen
  constructor arguments of \<^verbatim>\<open>_get_all_forecast_from_api\<close>, in the order they are
  passed. The temperature fields hold integers (the rounded temperature, or the
  integer-valued start values \<^verbatim>\<open>-100.0\<close> and \<^verbatim>\<open>100.0\<close> of the aggregation).
\<close>

record SmhiForecast =
  temperature :: int
  temperature_max :: int
  temperature_min :: int
  humidity :: int
  pressure :: int
  thunder :: int
  cloudiness :: int
  precipitation :: int
  wind_direction :: int
  wind_speed :: rat
  horizontal_visibility :: rat
  wind_gust :: rat
  mean_precipitation :: rat
  total_precipitation :: rat
  symbol :: int
  valid_time :: datetime

text \<open>
  The object store. \<^verbatim>\<open>copy.deepcopy\<close> of a forecast object allocates a new object with
  the same field values (all fields are immutable numbers and datetimes). Addresses come
  from allocation only, so every read \<open>h ! r\<close> of the functions below is in range.
\<close>

type_synonym ref = nat
type_synonym heap = "SmhiForecast list"

definition new_object :: "SmhiForecast \<Rightarrow> heap \<Rightarrow> ref \<times> heap" where
  "new_object v h = (length h, h @ [v])"

definition deepcopy :: "ref \<Rightarrow> heap \<Rightarrow> ref \<times> heap" where
  "deepcopy r h = new_object (h ! r) h"

text \<open>
  The \<^verbatim>\<open>OrderedDict\<close> from day of month to the list of that day's objects: an
  association list in insertion order.
\<close>

type_synonym odict = "(int \<times> ref list) list"

definition odict_contains :: "odict \<Rightarrow> int \<Rightarrow> bool" where
  "odict_contains od k = (k \<in> fst ` set od)"

definition odict_setitem :: "odict \<Rightarrow> int \<Rightarrow> ref list \<Rightarrow> odict" where
  "odict_setitem od k v =
     (if odict_contains od k then map (\<lambda>(k', v'). if k' = k then (k', v) else (k', v')) od
      else od @ [(k, v)])"

definition odict_append :: "odict \<Rightarrow> int \<Rightarrow> ref \<Rightarrow> odict" where
  "odict_append od k r = map (\<lambda>(k', v'). if k' = k then (k', v' @ [r]) else (k', v')) od"

subsection \<open>\<^verbatim>\<open>_get_all_forecast_from_api\<close>\<close>

text \<open>
  The twelve variables the parameter loop assigns. They are locals of the function, not
  of the loop body: a variable is unbound (\<open>None\<close>) until some entry assigns it and
  keeps its value from then on.
\<close>

record locals =
  var_temperature :: "rat option"
  var_humidity :: "int option"
  var_pressure :: "int option"
  var_thunder :: "int option"
  var_cloudiness :: "int option"
  var_symbol :: "int option"
  var_precipitation :: "int option"
  var_mean_precipitation :: "rat option"
  var_wind_speed :: "rat option"
  var_wind_direction :: "int option"
  var_horizontal_visibility :: "rat option"
  var_wind_gust :: "rat option"

definition no_locals :: locals where
  "no_locals =
     \<lparr>var_temperature = None, var_humidity = None, var_pressure = None, var_thunder = None,
      var_cloudiness = None, var_symbol = None, var_precipitation = None,
      var_mean_precipitation = None, var_wind_speed = None, var_wind_direction = None,
      var_horizontal_visibility = None, var_wind_gust = None\<rparr>"

text \<open>\<^verbatim>\<open>param["values"][0]\<close>\<close>

definition first_value :: "param \<Rightarrow> error + rat" where
  "first_value p = (case values p of [] \<Rightarrow> Inl IndexError | v # _ \<Rightarrow> Inr v)"

text \<open>Lines 176 to 179: octas to percent.\<close>

definition octa_to_cloudiness :: "int \<Rightarrow> int" where
  "octa_to_cloudiness octa =
     (if 0 \<le> octa \<and> octa \<le> 8 then py_round (100 * of_int octa / 8) else 100)"

text \<open>The body of the parameter loop, lines 166 to 193.\<close>

definition read_param :: "locals \<Rightarrow> param \<Rightarrow> error + locals" where
  "read_param l p =
     (if name p = ''t'' then
        (case first_value p of Inl e \<Rightarrow> Inl e
         | Inr v \<Rightarrow> Inr (l\<lparr>var_temperature := Some v\<rparr>))
      else if name p = ''r'' then
        (case first_value p of Inl e \<Rightarrow> Inl e
         | Inr v \<Rightarrow> Inr (l\<lparr>var_humidity := Some (py_int v)\<rparr>))
      else if name p = ''msl'' then
        (case first_value p of Inl e \<Rightarrow> Inl e
         | Inr v \<Rightarrow> Inr (l\<lparr>var_pressure := Some (py_int v)\<rparr>))
      else if name p = ''tstm'' then
        (case first_value p of Inl e \<Rightarrow> Inl e
         | Inr v \<Rightarrow> Inr (l\<lparr>var_thunder := Some (py_int v)\<rparr>))
      else if name p = ''tcc_mean'' then
        (case first_value p of Inl e \<Rightarrow> Inl e
         | Inr v \<Rightarrow> Inr (l\<lparr>var_cloudiness := Some (octa_to_cloudiness (py_int v))\<rparr>))
      else if name p = ''Wsymb2'' then
        (case first_value p of Inl e \<Rightarrow> Inl e
         | Inr v \<Rightarrow> Inr (l\<lparr>var_symbol := Some (py_int v)\<rparr>))
      else if name p = ''pcat'' then
        (case first_value p of Inl e \<Rightarrow> Inl e
         | Inr v \<Rightarrow> Inr (l\<lparr>var_precipitation := Some (py_int v)\<rparr>))
      else if name p = ''pmean'' then
        (case first_value p of Inl e \<Rightarrow> Inl e
         | Inr v \<Rightarrow> Inr (l\<lparr>var_mean_precipitation := Some v\<rparr>))
      else if name p = ''ws'' then
        (case first_value p of Inl e \<Rightarrow> Inl e
         | Inr v \<Rightarrow> Inr (l\<lparr>var_wind_speed := Some v\<rparr>))
      else if name p = ''wd'' then
        (case first_value p of Inl e \<Rightarrow> Inl e
         | Inr v \<Rightarrow> Inr (l\<lparr>var_wind_direction := Some (py_int v)\<rparr>))
      else if name p = ''vis'' then
        (case first_value p of Inl e \<Rightarrow> Inl e
         | Inr v \<Rightarrow> Inr (l\<lparr>var_horizontal_visibility := Some v\<rparr>))
      else if name p = ''gust'' then
        (case first_value p of Inl e \<Rightarrow> Inl e
         | Inr v \<Rightarrow> Inr (l\<lparr>var_wind_gust := Some v\<rparr>))
      else Inr l)"

fun read_params :: "locals \<Rightarrow> param list \<Rightarrow> error + locals" where
  "read_params l [] = Inr l"
| "read_params l (p # ps) =
     (case read_param l p of Inl e \<Rightarrow> Inl e | Inr l' \<Rightarrow> read_params l' ps)"

text \<open>
  Lines 195 to 221: the new object. Reading an unbound local raises
  \<^verbatim>\<open>UnboundLocalError\<close>; here that is \<open>None\<close>, whichever variable is read first.
\<close>

definition build_forecast :: "locals \<Rightarrow> rat \<Rightarrow> datetime \<Rightarrow> SmhiForecast option" where
  "build_forecast l total_hours_last_forecast t =
     do { temperature' \<leftarrow> var_temperature l;
          let roundedTemp = py_round temperature';
          mean_precipitation' \<leftarrow> var_mean_precipitation l;
          let tp = round_ndigits (mean_precipitation' * total_hours_last_forecast) 2;
          humidity' \<leftarrow> var_humidity l;
          pressure' \<leftarrow> var_pressure l;
          thunder' \<leftarrow> var_thunder l;
          cloudiness' \<leftarrow> var_cloudiness l;
          precipitation' \<leftarrow> var_precipitation l;
          wind_direction' \<leftarrow> var_wind_direction l;
          wind_speed' \<leftarrow> var_wind_speed l;
          horizontal_visibility' \<leftarrow> var_horizontal_visibility l;
          wind_gust' \<leftarrow> var_wind_gust l;
          symbol' \<leftarrow> var_symbol l;
          Some \<lparr>temperature = roundedTemp, temperature_max = roundedTemp,
                temperature_min = roundedTemp, humidity = humidity', pressure = pressure',
                thunder = thunder', cloudiness = cloudiness',
                precipitation = precipitation', wind_direction = wind_direction',
                wind_speed = wind_speed', horizontal_visibility = horizontal_visibility',
                wind_gust = wind_gust',
                mean_precipitation = round_ndigits mean_precipitation' 1,
                total_precipitation = tp, symbol = symbol', valid_time = t\<rparr> }"

text \<open>The state the loop over the time series carries from one entry to the next.\<close>

record loop_state =
  vars :: locals
  total_hours_last_forecast :: rat
  last_time :: "datetime option"
  forecasts_ordered :: odict
  objects :: heap

definition initial_state :: loop_state where
  "initial_state =
     \<lparr>vars = no_locals, total_hours_last_forecast = 1, last_time = None,
      forecasts_ordered = [], objects = []\<rparr>"

text \<open>The body of the loop over the time series, lines 164 to 229.\<close>

definition process_entry :: "loop_state \<Rightarrow> entry \<Rightarrow> error + loop_state" where
  "process_entry st forecast =
     (case strptime (validTime forecast) of
        None \<Rightarrow> Inl ValueError
      | Some t \<Rightarrow>
         (case read_params (vars st) (parameters forecast) of
            Inl e \<Rightarrow> Inl e
          | Inr l \<Rightarrow>
             (let hours =
                    (case last_time st of
                       None \<Rightarrow> total_hours_last_forecast st
                     | Some lt \<Rightarrow> of_int (seconds (datetime_sub t lt)) / 60 / 60)
              in case build_forecast l hours t of
                   None \<Rightarrow> Inl UnboundLocalError
                 | Some obj \<Rightarrow>
                    (let (r, h) = new_object obj (objects st);
                         od = (if \<not> odict_contains (forecasts_ordered st) (day t)
                               then odict_setitem (forecasts_ordered st) (day t) []
                               else forecasts_ordered st)
                     in Inr \<lparr>vars = l, total_hours_last_forecast = hours,
                              last_time = Some t,
                              forecasts_ordered = odict_append od (day t) r,
                              objects = h\<rparr>))))"

fun process_entries :: "loop_state \<Rightarrow> entry list \<Rightarrow> error + loop_state" where
  "process_entries st [] = Inr st"
| "process_entries st (e # es) =
     (case process_entry st e of Inl err \<Rightarrow> Inl err | Inr st' \<Rightarrow> process_entries st' es)"

definition get_all_forecast_from_api :: "api_result \<Rightarrow> error + odict \<times> heap" where
  "get_all_forecast_from_api a =
     (case timeSeries a of
        None \<Rightarrow> Inl KeyError
      | Some ts \<Rightarrow>
         (case process_entries initial_state ts of
            Inl err \<Rightarrow> Inl err
          | Inr st \<Rightarrow> Inr (forecasts_ordered st, objects st)))"

subsection \<open>\<^verbatim>\<open>_get_forecast\<close>\<close>

text \<open>The accumulators of the scan over one day's objects, lines 116 to 119.\<close>

record scan =
  total_precipitation_sum :: rat
  forecast_temp_max :: int
  forecast_temp_min :: int
  noon :: "ref option"

definition scan_start :: scan where
  "scan_start =
     \<lparr>total_precipitation_sum = 0, forecast_temp_max = - 100, forecast_temp_min = 100,
      noon = None\<rparr>"

text \<open>
  The body of the inner loop, lines 121 to 130. The two temperature tests are
  independent \<^verbatim>\<open>if\<close>s; every object at hour 12 is copied, and the copy replaces the
  one held before.
\<close>

definition scan_one :: "scan \<times> heap \<Rightarrow> ref \<Rightarrow> scan \<times> heap" where
  "scan_one sh forcast_day =
     (let (s, h) = sh;
          t = temperature (h ! forcast_day);
          s1 = (if forecast_temp_min s > t then s\<lparr>forecast_temp_min := t\<rparr> else s);
          s2 = (if forecast_temp_max s1 < t then s1\<lparr>forecast_temp_max := t\<rparr> else s1);
          (s3, h3) =
            (if hour (valid_time (h ! forcast_day)) = 12
             then (let (c, h') = deepcopy forcast_day h in (s2\<lparr>noon := Some c\<rparr>, h'))
             else (s2, h))
      in (s3\<lparr>total_precipitation_sum :=
                total_precipitation_sum s3 + total_precipitation (h3 ! forcast_day)\<rparr>, h3))"

definition scan_day :: "ref list \<Rightarrow> heap \<Rightarrow> scan \<times> heap" where
  "scan_day forecasts_day h = foldl scan_one (scan_start, h) forecasts_day"

text \<open>Lines 136 to 139: the aggregates are written into the object itself.\<close>

definition set_aggregates :: "scan \<Rightarrow> SmhiForecast \<Rightarrow> SmhiForecast" where
  "set_aggregates s f =
     f\<lparr>temperature_max := forecast_temp_max s,
       temperature_min := forecast_temp_min s,
       total_precipitation := total_precipitation_sum s,
       mean_precipitation := total_precipitation_sum s / 24\<rparr>"

text \<open>
  One pass of the loop over the days, lines 110 to 141, on the list of one day.
  \<^verbatim>\<open>forecasts_day[0]\<close> raises \<^verbatim>\<open>IndexError\<close> on an empty list. Without an object at
  hour 12 the day's first object itself, not a copy, becomes the day's forecast.
\<close>

definition process_day ::
  "nat \<Rightarrow> ref list \<Rightarrow> ref list \<times> heap \<Rightarrow> error + ref list \<times> heap" where
  "process_day day_nr forecasts_day fh =
     (case forecasts_day of
        [] \<Rightarrow> Inl IndexError
      | first # _ \<Rightarrow>
         (let (forecasts, h) = fh;
              (forecasts1, h1) =
                (if day_nr = 1
                 then (let (c, h') = deepcopy first h in (forecasts @ [c], h'))
                 else (forecasts, h));
              (s, h2) = scan_day forecasts_day h1;
              forecast = (case noon s of None \<Rightarrow> first | Some c \<Rightarrow> c);
              h3 = h2[forecast := set_aggregates s (h2 ! forecast)]
          in Inr (forecasts1 @ [forecast], h3)))"

fun process_days :: "nat \<Rightarrow> odict \<Rightarrow> ref list \<times> heap \<Rightarrow> error + ref list \<times> heap" where
  "process_days day_nr [] fh = Inr fh"
| "process_days day_nr ((d, forecasts_day) # rest) fh =
     (case process_day day_nr forecasts_day fh of
        Inl err \<Rightarrow> Inl err
      | Inr fh' \<Rightarrow> process_days (day_nr + 1) rest fh')"

text \<open>
  The result is the list \<^verbatim>\<open>forecasts\<close> (addresses) together with the store that holds
  the objects.
\<close>

definition get_forecast :: "api_result \<Rightarrow> error + ref list \<times> heap" where
  "get_forecast a =
     (case get_all_forecast_from_api a of
        Inl err \<Rightarrow> Inl err
      | Inr (od, h) \<Rightarrow> process_days 1 od ([], h))"

subsection \<open>Notions used in the statements\<close>

text \<open>An object of the store is at hour 12.\<close>

definition noon_hour :: "heap \<Rightarrow> ref \<Rightarrow> bool" where
  "noon_hour h r = (hour (valid_time (h ! r)) = 12)"

text \<open>
  The object of a day that stands for the day: the last one at hour 12, or the day's
  first object when none is at hour 12.
\<close>

definition noon_choice :: "heap \<Rightarrow> ref list \<Rightarrow> ref" where
  "noon_choice h rs = (case filter (noon_hour h) rs of [] \<Rightarrow> hd rs | n # ns \<Rightarrow> last (n # ns))"

text \<open>
  The object \<open>f\<close> with the four aggregate fields computed from the day's objects \<open>xs\<close>:
  the extrema start from \<open>-100\<close> and \<open>100\<close>.
\<close>

definition day_summary :: "SmhiForecast list \<Rightarrow> SmhiForecast \<Rightarrow> SmhiForecast" where
  "day_summary xs f =
     f\<lparr>temperature_max := Max (set (- 100 # map temperature xs)),
       temperature_min := Min (set (100 # map temperature xs)),
       total_precipitation := sum_list (map total_precipitation xs),
       mean_precipitation := sum_list (map total_precipitation xs) / 24\<rparr>"

text \<open>Lines 223 to 227 as one step on the dictionary.\<close>

definition add_to_day :: "odict \<Rightarrow> int \<Rightarrow> ref \<Rightarrow> odict" where
  "add_to_day od d r =
     odict_append (if \<not> odict_contains od d then odict_setitem od d [] else od) d r"

text \<open>
  The invariant of the loop over the time series: the keys are distinct, every object
  of the store is in exactly one day's list, no list is empty, and an object is in the
  list of its own day of month.
\<close>

definition day_groups_ok :: "odict \<Rightarrow> heap \<Rightarrow> bool" where
  "day_groups_ok od h =
     (distinct (map fst od) \<and> distinct (concat (map snd od)) \<and>
      set (concat (map snd od)) = {..<length h} \<and>
      (\<forall>g\<in>set od. snd g \<noteq> [] \<and> (\<forall>r\<in>set (snd g). day (valid_time (h ! r)) = fst g)))"

text \<open>The day of month of an entry (of a parseable \<^verbatim>\<open>validTime\<close>).\<close>

definition entry_day :: "entry \<Rightarrow> int" where
  "entry_day e = (case strptime (validTime e) of None \<Rightarrow> 0 | Some t \<Rightarrow> day t)"





text \<open>What the caller of \<^verbatim>\<open>_get_forecast\<close> sees: the objects of the returned list.\<close>

definition result_values :: "error + ref list \<times> heap \<Rightarrow> SmhiForecast list" where
  "result_values res = (case res of Inl err \<Rightarrow> [] | Inr (out, h) \<Rightarrow> map ((!) h) out)"

subsection \<open>Sample inputs\<close>

definition sample_param :: "string \<Rightarrow> rat \<Rightarrow> param" where
  "sample_param n v = \<lparr>name = n, values = [v]\<rparr>"

text \<open>All twelve parameters, with temperature, humidity and precipitation intensity given.\<close>

definition sample_parameters :: "rat \<Rightarrow> rat \<Rightarrow> rat \<Rightarrow> param list" where
  "sample_parameters t r pm =
     [sample_param ''t'' t, sample_param ''r'' r, sample_param ''msl'' 1013,
      sample_param ''tstm'' 0, sample_param ''tcc_mean'' 4, sample_param ''Wsymb2'' 1,
      sample_param ''pcat'' 0, sample_param ''pmean'' pm, sample_param ''ws'' 3,
      sample_param ''wd'' 180, sample_param ''vis'' 50, sample_param ''gust'' 5]"


definition sample_forecast :: "int \<Rightarrow> int \<Rightarrow> rat \<Rightarrow> rat \<Rightarrow> datetime \<Rightarrow> SmhiForecast" where
  "sample_forecast t r pm tp vt =
     \<lparr>temperature = t, temperature_max = t, temperature_min = t, humidity = r,
      pressure = 1013, thunder = 0, cloudiness = 50, precipitation = 0,
      wind_direction = 180, wind_speed = 3, horizontal_visibility = 50, wind_gust = 5,
      mean_precipitation = pm, total_precipitation = tp, symbol = 1, valid_time = vt\<rparr>"

definition jan :: "int \<Rightarrow> int \<Rightarrow> int \<Rightarrow> datetime" where
  "jan d H M = \<lparr>year = 2024, month = 1, day = d, hour = H, minute = M, second = 0\<rparr>"

text \<open>Two entries of one day, both at hour 12.\<close>

definition two_noons :: api_result where
  "two_noons = \<lparr>timeSeries = Some
     [\<lparr>validTime = ''2024-01-01T12:00:00Z'', parameters = sample_parameters 5 80 1\<rparr>,
      \<lparr>validTime = ''2024-01-01T12:30:00Z'', parameters = sample_parameters 7 99 1\<rparr>]\<rparr>"

text \<open>Two entries of one day, none at hour 12.\<close>

definition no_noon :: api_result where
  "no_noon = \<lparr>timeSeries = Some
     [\<lparr>validTime = ''2024-01-01T10:00:00Z'', parameters = sample_parameters 5 80 1\<rparr>,
      \<lparr>validTime = ''2024-01-01T11:00:00Z'', parameters = sample_parameters 7 81 1\<rparr>]\<rparr>"

text \<open>Two entries 25 hours apart.\<close>

definition long_gap :: api_result where
  "long_gap = \<lparr>timeSeries = Some
     [\<lparr>validTime = ''2024-01-01T00:00:00Z'', parameters = sample_parameters 5 80 1\<rparr>,
      \<lparr>validTime = ''2024-01-02T01:00:00Z'', parameters = sample_parameters 7 81 1\<rparr>]\<rparr>"



text \<open>One entry, at 150 degrees.\<close>

definition hot_day :: api_result where
  "hot_day = \<lparr>timeSeries = Some
     [\<lparr>validTime = ''2024-01-01T12:00:00Z'', parameters = sample_parameters 150 80 1\<rparr>]\<rparr>"

text \<open>One entry with two parameters \<^verbatim>\<open>tcc_mean\<close>, 4 octas and then 3.\<close>

definition three_octas :: api_result where
  "three_octas = \<lparr>timeSeries = Some
     [\<lparr>validTime = ''2024-01-01T12:00:00Z'',
       parameters = sample_parameters 5 80 1 @ [sample_param ''tcc_mean'' 3]\<rparr>]\<rparr>"

section \<open>Properties\<close>

subsection \<open>The scan over one day\<close>

text \<open>
  The scan reads only objects below \<open>length h\<close>; the copies it makes are appended
  behind, so the result is a function of the day's objects.
\<close>

lemma scan_one_eq:
  assumes "r < length h"
  shows "scan_one (s, h @ cs) r =
    (\<lparr>total_precipitation_sum = total_precipitation_sum s + total_precipitation (h ! r),
      forecast_temp_max = max (temperature (h ! r)) (forecast_temp_max s),
      forecast_temp_min = min (temperature (h ! r)) (forecast_temp_min s),
      noon = (if noon_hour h r then Some (length h + length cs) else noon s)\<rparr>,
     h @ cs @ (if noon_hour h r then [h ! r] else []))"
  using assms
  by (simp add: scan_one_def deepcopy_def new_object_def noon_hour_def nth_append Let_def max_def min_def)

lemma foldl_scan_one:
  assumes "\<forall>r\<in>set rs. r < length h"
  shows "foldl scan_one (s, h @ cs) rs =
    (\<lparr>total_precipitation_sum =
        total_precipitation_sum s + sum_list (map (\<lambda>r. total_precipitation (h ! r)) rs),
      forecast_temp_max = fold max (map (\<lambda>r. temperature (h ! r)) rs) (forecast_temp_max s),
      forecast_temp_min = fold min (map (\<lambda>r. temperature (h ! r)) rs) (forecast_temp_min s),
      noon = (if filter (noon_hour h) rs = [] then noon s
              else Some (length h + length cs + length (filter (noon_hour h) rs) - 1))\<rparr>,
     h @ cs @ map ((!) h) (filter (noon_hour h) rs))"
  using assms
proof (induction rs arbitrary: s cs)
  case Nil
  show ?case by simp
next
  case (Cons r rs)
  have r: "r < length h" and rs: "\<forall>r\<in>set rs. r < length h" using Cons.prems by simp_all
  show ?case
  proof (cases "noon_hour h r")
    case True
    have "h @ cs @ [h ! r] = h @ (cs @ [h ! r])" by simp
    then show ?thesis
      using True Cons.IH [OF rs, of _ "cs @ [h ! r]"]
      by (simp add: scan_one_eq [OF r] add.assoc del: append_assoc)
  next
    case False
    then show ?thesis
      using Cons.IH [OF rs, of _ cs]
      by (simp add: scan_one_eq [OF r] add.assoc)
  qed
qed

lemma scan_day_eq:
  assumes "\<forall>r\<in>set rs. r < length h"
  shows "scan_day rs (h @ cs) =
    (\<lparr>total_precipitation_sum = sum_list (map (\<lambda>r. total_precipitation (h ! r)) rs),
      forecast_temp_max = Max (set (- 100 # map (\<lambda>r. temperature (h ! r)) rs)),
      forecast_temp_min = Min (set (100 # map (\<lambda>r. temperature (h ! r)) rs)),
      noon = (if filter (noon_hour h) rs = [] then None
              else Some (length h + length cs + length (filter (noon_hour h) rs) - 1))\<rparr>,
     h @ cs @ map ((!) h) (filter (noon_hour h) rs))"
  unfolding scan_day_def foldl_scan_one [OF assms]
  by (simp add: scan_start_def Max.set_eq_fold Min.set_eq_fold del: set_simps)

lemma set_aggregates_summary:
  "set_aggregates
     \<lparr>total_precipitation_sum = sum_list (map (\<lambda>r. total_precipitation (h ! r)) rs),
      forecast_temp_max = Max (set (- 100 # map (\<lambda>r. temperature (h ! r)) rs)),
      forecast_temp_min = Min (set (100 # map (\<lambda>r. temperature (h ! r)) rs)),
      noon = n\<rparr> f = day_summary (map ((!) h) rs) f"
  by (simp add: set_aggregates_def day_summary_def comp_def)

lemma process_day_eq:
  fixes n :: nat and h :: heap and rs :: "ref list" and fs :: "ref list"
  assumes rs: "rs \<noteq> []" "\<forall>r\<in>set rs. r < length h"
  defines "pre \<equiv> (if n = 1 then [length h] else [])"
  defines "ns \<equiv> filter (noon_hour h) rs"
  defines "rep \<equiv> (if ns = [] then hd rs else length h + length pre + length ns - 1)"
  shows "\<exists>h1. process_day n rs (fs, h) = Inr (fs @ pre @ [rep], h1)
           \<and> length h1 = length h + length pre + length ns
           \<and> (\<forall>r < length h. r \<noteq> rep \<longrightarrow> h1 ! r = h ! r)
           \<and> (n = 1 \<longrightarrow> h1 ! length h = h ! hd rs)
           \<and> h1 ! rep = day_summary (map ((!) h) rs) (h ! noon_choice h rs)"
proof -
  obtain first rest where rs_eq: "rs = first # rest" using rs(1) by (cases rs) auto
  have first: "first < length h" using rs(2) rs_eq by simp
  define cs where "cs = (if n = 1 then [h ! first] else [])"
  define h2 where "h2 = h @ cs @ map ((!) h) ns"
  have len_cs: "length cs = length pre" by (simp add: cs_def pre_def)
  have len_h2: "length h2 = length h + length pre + length ns"
    by (simp add: h2_def len_cs)
  have hd_rs: "hd rs = first" by (simp add: rs_eq)
  have rep_lt: "rep < length h2"
    using first by (cases "ns = []") (auto simp: rep_def len_h2 hd_rs)
  have h2_rep: "h2 ! rep = h ! noon_choice h rs"
  proof (cases "ns = []")
    case True
    moreover have "hd rs = first" by (simp add: rs_eq)
    ultimately have "noon_choice h rs = first" "rep = first"
      by (simp_all add: noon_choice_def ns_def [symmetric] rep_def)
    then show ?thesis
      using first by (simp add: h2_def nth_append)
  next
    case False
    then obtain m ms where ns_eq: "ns = m # ms" by (cases ns) auto
    have "rep = length (h @ cs) + (length ns - 1)"
      using False by (cases ns) (simp_all add: rep_def len_cs)
    then have "h2 ! rep = map ((!) h) ns ! (length ns - 1)"
      unfolding h2_def by (metis append.assoc nth_append_length_plus)
    also have "\<dots> = h ! last ns"
      using False by (simp add: last_conv_nth)
    finally show ?thesis
      by (simp add: noon_choice_def ns_def [symmetric] ns_eq)
  qed
  define S where "S =
    \<lparr>total_precipitation_sum = sum_list (map (\<lambda>r. total_precipitation (h ! r)) rs),
      forecast_temp_max = Max (set (- 100 # map (\<lambda>r. temperature (h ! r)) rs)),
      forecast_temp_min = Min (set (100 # map (\<lambda>r. temperature (h ! r)) rs)),
      noon = (if ns = [] then None else Some (length h + length cs + length ns - 1))\<rparr>"
  have scan: "scan_day rs (h @ cs) = (S, h2)"
    by (simp only: scan_day_eq [OF rs(2)] S_def ns_def h2_def)
  have noon_S: "(case noon S of None \<Rightarrow> first | Some c \<Rightarrow> c) = rep"
    by (simp add: S_def rep_def hd_rs len_cs)
  have agg_S: "set_aggregates S f = day_summary (map ((!) h) rs) f" for f
    unfolding S_def by (rule set_aggregates_summary)
  have unfold: "process_day n rs (fs, h) =
     (let (forecasts1, h1) =
            (if n = 1 then (let (c, h') = deepcopy first h in (fs @ [c], h')) else (fs, h));
          (s, h2) = scan_day rs h1;
          forecast = (case noon s of None \<Rightarrow> first | Some c \<Rightarrow> c);
          h3 = h2[forecast := set_aggregates s (h2 ! forecast)]
      in Inr (forecasts1 @ [forecast], h3))"
    by (simp add: process_day_def rs_eq)
  have copy: "(if n = 1 then (let (c, h') = deepcopy first h in (fs @ [c], h')) else (fs, h))
      = (fs @ pre, h @ cs)"
    by (simp add: deepcopy_def new_object_def pre_def cs_def)
  have step: "process_day n rs (fs, h) =
      Inr (fs @ pre @ [rep], h2[rep := day_summary (map ((!) h) rs) (h2 ! rep)])"
    unfolding unfold copy by (simp add: scan noon_S agg_S)
  let ?h1 = "h2[rep := day_summary (map ((!) h) rs) (h2 ! rep)]"
  have "length ?h1 = length h + length pre + length ns" by (simp add: len_h2)
  moreover have "\<forall>r < length h. r \<noteq> rep \<longrightarrow> ?h1 ! r = h ! r"
    by (simp add: h2_def nth_append)
  moreover have "n = 1 \<longrightarrow> ?h1 ! length h = h ! hd rs"
    using first by (cases "ns = []") (auto simp: rep_def pre_def h2_def cs_def hd_rs nth_append)
  moreover have "?h1 ! rep = day_summary (map ((!) h) rs) (h ! noon_choice h rs)"
    using rep_lt by (simp add: h2_rep)
  ultimately show ?thesis using step by blast
qed

lemma noon_choice_in: "rs \<noteq> [] \<Longrightarrow> noon_choice h rs \<in> set rs"
proof (cases "filter (noon_hour h) rs")
  case Nil
  assume "rs \<noteq> []"
  then show ?thesis using Nil by (simp add: noon_choice_def)
next
  case (Cons n ns)
  then have "filter (noon_hour h) rs \<noteq> []" by simp
  then have "last (filter (noon_hour h) rs) \<in> set (filter (noon_hour h) rs)"
    by (rule last_in_set)
  then have "last (filter (noon_hour h) rs) \<in> set rs" by simp
  moreover have "noon_choice h rs = last (filter (noon_hour h) rs)"
    by (simp add: noon_choice_def Cons)
  ultimately show ?thesis by simp
qed

lemma agree_on_day:
  assumes "\<forall>r\<in>set rs. h ! r = h0 ! r"
  shows "map ((!) h) rs = map ((!) h0) rs"
    and "filter (noon_hour h) rs = filter (noon_hour h0) rs"
    and "noon_choice h rs = noon_choice h0 rs"
proof -
  show "map ((!) h) rs = map ((!) h0) rs" using assms by simp
  show f: "filter (noon_hour h) rs = filter (noon_hour h0) rs"
    using assms by (intro filter_cong) (simp_all add: noon_hour_def)
  show "noon_choice h rs = noon_choice h0 rs" by (simp add: noon_choice_def f)
qed

subsection \<open>The loop over the days\<close>

text \<open>
  The loop on any store \<open>h\<close> that agrees with the store \<open>h0\<close> of the raw samples on
  the days still to come: it returns, every day yields one address, the store at that
  address is the day's summary, and nothing outside the remaining days' objects changes.
\<close>

lemma process_days_eq:
  fixes h0 :: heap
  assumes "1 \<le> n"
    and "\<forall>rs\<in>set (map snd od). rs \<noteq> [] \<and> (\<forall>r\<in>set rs. r < length h0)"
    and "distinct (concat (map snd od))"
    and "length h0 \<le> length h"
    and "\<forall>r\<in>set (concat (map snd od)). h ! r = h0 ! r"
  shows "\<exists>reps hF.
      process_days n od (fs, h) =
        Inr (fs @ (if n = 1 \<and> od \<noteq> [] then [length h] else []) @ reps, hF)
    \<and> length reps = length od
    \<and> length h \<le> length hF
    \<and> (\<forall>j<length od. hF ! (reps ! j) =
          day_summary (map ((!) h0) (snd (od ! j))) (h0 ! noon_choice h0 (snd (od ! j))))
    \<and> (\<forall>j<length od. reps ! j < length hF \<and>
          (if filter (noon_hour h0) (snd (od ! j)) = [] then reps ! j = hd (snd (od ! j))
           else length h + (if n = 1 then 1 else 0) \<le> reps ! j))
    \<and> (\<forall>r<length h. r \<notin> set (concat (map snd od)) \<longrightarrow> hF ! r = h ! r)
    \<and> (n = 1 \<and> od \<noteq> [] \<longrightarrow> hF ! length h = h0 ! hd (snd (hd od)))"
  using assms
proof (induction od arbitrary: n fs h)
  case Nil
  show ?case by simp
next
  case (Cons g rest)
  obtain d rs where g: "g = (d, rs)" by (cases g)
  have rs_ne: "rs \<noteq> []" and rs_lt0: "\<forall>r\<in>set rs. r < length h0"
    using Cons.prems(2) g by simp_all
  have rs_lt: "\<forall>r\<in>set rs. r < length h" using rs_lt0 Cons.prems(4) by auto
  have agree: "\<forall>r\<in>set rs. h ! r = h0 ! r" using Cons.prems(5) g by simp
  have disj: "set rs \<inter> set (concat (map snd rest)) = {}"
    and dist: "distinct (concat (map snd rest))"
    using Cons.prems(3) g by simp_all
  have rest_lt0: "\<forall>r\<in>set (concat (map snd rest)). r < length h0"
    using Cons.prems(2) by auto
  define pre where "pre = (if n = 1 then [length h] else [])"
  define ns where "ns = filter (noon_hour h0) rs"
  define rep where "rep = (if ns = [] then hd rs else length h + length pre + length ns - 1)"
  have ns_h: "filter (noon_hour h) rs = ns" by (simp add: ns_def agree_on_day(2) [OF agree])
  obtain h1 where day: "process_day n rs (fs, h) = Inr (fs @ pre @ [rep], h1)"
    and len1: "length h1 = length h + length pre + length ns"
    and frame1: "\<forall>r < length h. r \<noteq> rep \<longrightarrow> h1 ! r = h ! r"
    and first1: "n = 1 \<longrightarrow> h1 ! length h = h ! hd rs"
    and rep1: "h1 ! rep = day_summary (map ((!) h) rs) (h ! noon_choice h rs)"
    using process_day_eq [OF rs_ne rs_lt, of n fs]
    unfolding ns_h pre_def [symmetric] rep_def [symmetric] by blast
  have hd_in: "hd rs \<in> set rs" using rs_ne by simp
  have rep_cases: "if ns = [] then rep = hd rs else length h + length pre \<le> rep"
    by (cases ns) (simp_all add: rep_def)
  have rep_lt1: "rep < length h1"
    using rs_lt hd_in by (cases ns) (auto simp: rep_def len1)
  have rep_not_rest: "rep \<notin> set (concat (map snd rest))"
  proof (cases "ns = []")
    case True
    then show ?thesis using rep_cases disj hd_in by auto
  next
    case False
    then have le: "length h0 \<le> rep" using rep_cases Cons.prems(4) by simp
    show ?thesis
    proof
      assume "rep \<in> set (concat (map snd rest))"
      then have "rep < length h0" using rest_lt0 by blast
      then show False using le by simp
    qed
  qed
  have rep1': "h1 ! rep = day_summary (map ((!) h0) rs) (h0 ! noon_choice h0 rs)"
    using rep1 agree noon_choice_in [OF rs_ne, of h0]
    by (simp add: agree_on_day [OF agree])
  have agree1: "\<forall>r\<in>set (concat (map snd rest)). h1 ! r = h0 ! r"
  proof
    fix r assume r: "r \<in> set (concat (map snd rest))"
    then have "r < length h0" using rest_lt0 by blast
    then have "r < length h" using Cons.prems(4) by simp
    moreover have "r \<noteq> rep" using rep_not_rest r by blast
    ultimately have "h1 ! r = h ! r" using frame1 by simp
    then show "h1 ! r = h0 ! r" using Cons.prems(5) r by simp
  qed
  have len01: "length h0 \<le> length h1" using Cons.prems(4) len1 by simp
  have n1: "1 \<le> n + 1" "n \<noteq> 0" using Cons.prems(1) by simp_all
  have rest_ok: "\<forall>rs\<in>set (map snd rest). rs \<noteq> [] \<and> (\<forall>r\<in>set rs. r < length h0)"
    using Cons.prems(2) by simp
  obtain reps' hF where
        days0: "process_days (n + 1) rest (fs @ pre @ [rep], h1) =
                 Inr ((fs @ pre @ [rep]) @ (if n + 1 = 1 \<and> rest \<noteq> [] then [length h1] else [])
                      @ reps', hF)"
    and lenr: "length reps' = length rest"
    and lenF: "length h1 \<le> length hF"
    and sums: "\<forall>j<length rest. hF ! (reps' ! j) =
          day_summary (map ((!) h0) (snd (rest ! j))) (h0 ! noon_choice h0 (snd (rest ! j)))"
    and where0: "\<forall>j<length rest. reps' ! j < length hF \<and>
          (if filter (noon_hour h0) (snd (rest ! j)) = [] then reps' ! j = hd (snd (rest ! j))
           else length h1 + (if n + 1 = 1 then 1 else 0) \<le> reps' ! j)"
    and frameF: "\<forall>r<length h1. r \<notin> set (concat (map snd rest)) \<longrightarrow> hF ! r = h1 ! r"
    using Cons.IH [OF n1(1) rest_ok dist len01 agree1, of "fs @ pre @ [rep]"]
    by blast
  have days: "process_days (n + 1) rest (fs @ pre @ [rep], h1) =
                 Inr ((fs @ pre @ [rep]) @ reps', hF)"
    using days0 n1(2) by simp
  have where': "\<forall>j<length rest. reps' ! j < length hF \<and>
          (if filter (noon_hour h0) (snd (rest ! j)) = [] then reps' ! j = hd (snd (rest ! j))
           else length h1 \<le> reps' ! j)"
  proof (intro allI impI)
    fix j assume j: "j < length rest"
    show "reps' ! j < length hF \<and>
          (if filter (noon_hour h0) (snd (rest ! j)) = [] then reps' ! j = hd (snd (rest ! j))
           else length h1 \<le> reps' ! j)"
      using where0 [rule_format, OF j] n1(2)
      by (cases "filter (noon_hour h0) (snd (rest ! j)) = []") simp_all
  qed
  have repF: "hF ! rep = h1 ! rep" using frameF rep_lt1 rep_not_rest by simp
  have c1: "process_days n (g # rest) (fs, h) =
      Inr (fs @ (if n = 1 \<and> g # rest \<noteq> [] then [length h] else []) @ (rep # reps'), hF)"
    using day days by (simp add: g pre_def)
  have c2: "length (rep # reps') = length (g # rest)" using lenr by simp
  have c3: "length h \<le> length hF" using lenF len1 by simp
  have c4: "\<forall>j<length (g # rest). hF ! ((rep # reps') ! j) =
      day_summary (map ((!) h0) (snd ((g # rest) ! j)))
        (h0 ! noon_choice h0 (snd ((g # rest) ! j)))"
  proof (intro allI impI)
    fix j assume "j < length (g # rest)"
    then show "hF ! ((rep # reps') ! j) =
      day_summary (map ((!) h0) (snd ((g # rest) ! j)))
        (h0 ! noon_choice h0 (snd ((g # rest) ! j)))"
      using repF rep1' sums by (cases j) (simp_all add: g)
  qed
  have c5: "\<forall>j<length (g # rest). (rep # reps') ! j < length hF \<and>
      (if filter (noon_hour h0) (snd ((g # rest) ! j)) = []
       then (rep # reps') ! j = hd (snd ((g # rest) ! j))
       else length h + (if n = 1 then 1 else 0) \<le> (rep # reps') ! j)"
  proof (intro allI impI)
    fix j assume j: "j < length (g # rest)"
    show "(rep # reps') ! j < length hF \<and>
      (if filter (noon_hour h0) (snd ((g # rest) ! j)) = []
       then (rep # reps') ! j = hd (snd ((g # rest) ! j))
       else length h + (if n = 1 then 1 else 0) \<le> (rep # reps') ! j)"
    proof (cases j)
      case 0
      then show ?thesis
        using rep_cases rep_lt1 lenF by (auto simp: g ns_def [symmetric] pre_def split: if_splits)
    next
      case (Suc k)
      then have k: "k < length rest" using j by simp
      have "length h + (if n = 1 then 1 else 0) \<le> length h1"
        by (simp add: len1 pre_def)
      then show ?thesis
        using where' [rule_format, OF k] Suc by (auto split: if_splits)
    qed
  qed
  have c6: "\<forall>r<length h. r \<notin> set (concat (map snd (g # rest))) \<longrightarrow> hF ! r = h ! r"
  proof (intro allI impI)
    fix r assume r: "r < length h" "r \<notin> set (concat (map snd (g # rest)))"
    then have "r \<notin> set rs" "r \<notin> set (concat (map snd rest))" by (simp_all add: g)
    moreover have "r \<noteq> rep"
      using rep_cases r(1) \<open>r \<notin> set rs\<close> hd_in by (cases "ns = []") auto
    moreover have "r < length h1" using r(1) len1 by simp
    ultimately show "hF ! r = h ! r" using frameF frame1 r(1) by simp
  qed
  have c7: "n = 1 \<and> g # rest \<noteq> [] \<longrightarrow> hF ! length h = h0 ! hd (snd (hd (g # rest)))"
  proof
    assume "n = 1 \<and> g # rest \<noteq> []"
    then have n: "n = 1" by simp
    have "length h < length h1" using n by (simp add: len1 pre_def)
    moreover have "length h \<notin> set (concat (map snd rest))"
    proof
      assume "length h \<in> set (concat (map snd rest))"
      then have "length h < length h0" using rest_lt0 by blast
      then show False using Cons.prems(4) by simp
    qed
    ultimately have "hF ! length h = h1 ! length h" using frameF by simp
    also have "\<dots> = h ! hd rs" using first1 n by simp
    also have "\<dots> = h0 ! hd rs" using agree hd_in by simp
    finally show "hF ! length h = h0 ! hd (snd (hd (g # rest)))" by (simp add: g)
  qed
  from c1 c2 c3 c4 c5 c6 c7 show ?case by blast
qed

subsection \<open>The ordered dictionary\<close>

lemma odict_append_Cons:
  "odict_append ((k, rs) # od) d r =
     (if k = d then (k, rs @ [r]) else (k, rs)) # odict_append od d r"
  by (simp add: odict_append_def)

lemma odict_append_absent: "d \<notin> fst ` set od \<Longrightarrow> odict_append od d r = od"
proof (induction od)
  case Nil
  show ?case by (simp add: odict_append_def)
next
  case (Cons g od)
  obtain k rs where g: "g = (k, rs)" by (cases g)
  have "k \<noteq> d" "d \<notin> fst ` set od" using Cons.prems g by auto
  then show ?case using Cons.IH by (simp add: g odict_append_Cons)
qed

lemma add_to_day_present:
  "d \<in> fst ` set od \<Longrightarrow> add_to_day od d r = odict_append od d r"
  by (simp add: add_to_day_def odict_contains_def)

lemma add_to_day_new:
  assumes "d \<notin> fst ` set od"
  shows "add_to_day od d r = od @ [(d, [r])]"
proof -
  have "add_to_day od d r = odict_append (od @ [(d, [])]) d r"
    using assms by (simp add: add_to_day_def odict_contains_def odict_setitem_def)
  also have "\<dots> = odict_append od d r @ [(d, [r])]"
    by (simp add: odict_append_def)
  finally show ?thesis by (simp add: odict_append_absent [OF assms])
qed

lemma add_to_day_seen:
  assumes "distinct (map fst od)" and "(d, rs) \<in> set od"
  shows "\<exists>xs ys. od = xs @ (d, rs) # ys \<and> add_to_day od d r = xs @ (d, rs @ [r]) # ys"
proof -
  obtain xs ys where od: "od = xs @ (d, rs) # ys"
    using assms(2) by (meson split_list)
  have "d \<notin> fst ` set xs" "d \<notin> fst ` set ys"
    using assms(1) unfolding od by auto
  then have "odict_append xs d r = xs" "odict_append ys d r = ys"
    by (simp_all add: odict_append_absent)
  moreover have "odict_append od d r =
      odict_append xs d r @ (d, rs @ [r]) # odict_append ys d r"
    unfolding od by (simp add: odict_append_def)
  moreover have "d \<in> fst ` set od" using assms(2) by force
  ultimately have "add_to_day od d r = xs @ (d, rs @ [r]) # ys"
    by (simp add: add_to_day_present)
  then show ?thesis using od by blast
qed

lemma day_groups_ok_add:
  assumes ok: "day_groups_ok od h" and d: "day (valid_time obj) = d"
  shows "day_groups_ok (add_to_day od d (length h)) (h @ [obj])"
proof -
  have keys: "distinct (map fst od)" and refs: "distinct (concat (map snd od))"
    and all: "set (concat (map snd od)) = {..<length h}"
    and groups: "\<forall>g\<in>set od. snd g \<noteq> [] \<and> (\<forall>r\<in>set (snd g). day (valid_time (h ! r)) = fst g)"
    using ok by (simp_all add: day_groups_ok_def)
  have fresh: "length h \<notin> set (concat (map snd od))" unfolding all by simp
  have old: "snd g \<noteq> [] \<and> (\<forall>r\<in>set (snd g). day (valid_time ((h @ [obj]) ! r)) = fst g)"
    if g: "g \<in> set od" for g
  proof -
    have "r < length h" if "r \<in> set (snd g)" for r
    proof -
      have "r \<in> set (concat (map snd od))" using that g by auto
      then show ?thesis unfolding all by simp
    qed
    then show ?thesis using groups g by (simp add: nth_append)
  qed
  show ?thesis
  proof (cases "d \<in> fst ` set od")
    case False
    have eq: "add_to_day od d (length h) = od @ [(d, [length h])]"
      by (rule add_to_day_new [OF False])
    have "\<forall>g\<in>set (od @ [(d, [length h])]).
        snd g \<noteq> [] \<and> (\<forall>r\<in>set (snd g). day (valid_time ((h @ [obj]) ! r)) = fst g)"
      using old d by auto
    moreover have "distinct (map fst (od @ [(d, [length h])]))"
      using keys False by simp
    moreover have "distinct (concat (map snd (od @ [(d, [length h])])))"
      using refs fresh by simp
    moreover have "set (concat (map snd (od @ [(d, [length h])]))) = {..<length (h @ [obj])}"
    proof -
      have "set (concat (map snd (od @ [(d, [length h])]))) =
          insert (length h) (set (concat (map snd od)))" by simp
      then show ?thesis unfolding all by (simp add: lessThan_Suc)
    qed
    ultimately show ?thesis
      unfolding eq day_groups_ok_def by blast
  next
    case True
    then obtain rs where in_od: "(d, rs) \<in> set od" by auto
    obtain xs ys where od: "od = xs @ (d, rs) # ys"
      and eq: "add_to_day od d (length h) = xs @ (d, rs @ [length h]) # ys"
      using add_to_day_seen [OF keys in_od] by blast
    have g: "\<forall>g\<in>set (xs @ (d, rs @ [length h]) # ys).
        snd g \<noteq> [] \<and> (\<forall>r\<in>set (snd g). day (valid_time ((h @ [obj]) ! r)) = fst g)"
    proof
      fix g assume "g \<in> set (xs @ (d, rs @ [length h]) # ys)"
      then consider "g \<in> set od" | "g = (d, rs @ [length h])" unfolding od by auto
      then show "snd g \<noteq> [] \<and> (\<forall>r\<in>set (snd g). day (valid_time ((h @ [obj]) ! r)) = fst g)"
      proof cases
        case 1
        then show ?thesis by (rule old)
      next
        case 2
        have "\<forall>r\<in>set rs. day (valid_time ((h @ [obj]) ! r)) = d"
          using old [OF in_od] by simp
        then show ?thesis using 2 d by simp
      qed
    qed
    have k: "distinct (map fst (xs @ (d, rs @ [length h]) # ys))"
      using keys unfolding od by simp
    have s: "set (concat (map snd (xs @ (d, rs @ [length h]) # ys))) = {..<length (h @ [obj])}"
    proof -
      have "set (concat (map snd (xs @ (d, rs @ [length h]) # ys))) =
          insert (length h) (set (concat (map snd od)))" unfolding od by auto
      then show ?thesis unfolding all by (simp add: lessThan_Suc)
    qed
    have r: "distinct (concat (map snd (xs @ (d, rs @ [length h]) # ys)))"
      using refs fresh unfolding od by auto
    show ?thesis unfolding eq day_groups_ok_def using k r s g by blast
  qed
qed

subsection \<open>The loop over the time series\<close>

lemma process_entry_Inr:
  assumes "process_entry st e = Inr st'"
  obtains t l obj where
    "strptime (validTime e) = Some t"
    "read_params (vars st) (parameters e) = Inr l"
    "build_forecast l
       (case last_time st of None \<Rightarrow> total_hours_last_forecast st
        | Some lt \<Rightarrow> of_int (seconds (datetime_sub t lt)) / 60 / 60) t = Some obj"
    "st' = \<lparr>vars = l,
           total_hours_last_forecast =
             (case last_time st of None \<Rightarrow> total_hours_last_forecast st
              | Some lt \<Rightarrow> of_int (seconds (datetime_sub t lt)) / 60 / 60),
           last_time = Some t,
           forecasts_ordered = add_to_day (forecasts_ordered st) (day t) (length (objects st)),
           objects = objects st @ [obj]\<rparr>"
  using assms
  by (auto simp: process_entry_def new_object_def add_to_day_def Let_def
      split: option.splits sum.splits)

lemma build_forecast_valid_time: "build_forecast l hrs t = Some obj \<Longrightarrow> valid_time obj = t"
  by (auto simp: build_forecast_def Let_def split: Option.bind_splits)

lemma process_entries_Cons:
  assumes "process_entries st (e # es) = Inr st'"
  obtains st1 where "process_entry st e = Inr st1" "process_entries st1 es = Inr st'"
  using assms by (auto split: sum.splits)

lemma process_entries_ok:
  "day_groups_ok (forecasts_ordered st) (objects st) \<Longrightarrow> process_entries st es = Inr st' \<Longrightarrow>
     day_groups_ok (forecasts_ordered st') (objects st')"
proof (induction es arbitrary: st)
  case Nil
  then show ?case by simp
next
  case (Cons e es)
  obtain st1 where e: "process_entry st e = Inr st1" and es: "process_entries st1 es = Inr st'"
    using Cons.prems(2) by (rule process_entries_Cons)
  from e obtain t l obj where "build_forecast l
       (case last_time st of None \<Rightarrow> total_hours_last_forecast st
        | Some lt \<Rightarrow> of_int (seconds (datetime_sub t lt)) / 60 / 60) t = Some obj"
    and st1: "forecasts_ordered st1 = add_to_day (forecasts_ordered st) (day t) (length (objects st))"
      "objects st1 = objects st @ [obj]"
    by (rule process_entry_Inr) simp
  then have "day (valid_time obj) = day t" by (simp add: build_forecast_valid_time)
  then have "day_groups_ok (forecasts_ordered st1) (objects st1)"
    unfolding st1 using Cons.prems(1) by (intro day_groups_ok_add)
  then show ?case using es by (rule Cons.IH)
qed

lemma process_entries_objects:
  "process_entries st es = Inr st' \<Longrightarrow>
     \<exists>new. objects st' = objects st @ new \<and> length new = length es"
proof (induction es arbitrary: st)
  case Nil
  then show ?case by simp
next
  case (Cons e es)
  obtain st1 where e: "process_entry st e = Inr st1" and es: "process_entries st1 es = Inr st'"
    using Cons.prems by (rule process_entries_Cons)
  from e obtain obj where st1: "objects st1 = objects st @ [obj]"
    by (rule process_entry_Inr) simp
  obtain new where "objects st' = objects st1 @ new" "length new = length es"
    using Cons.IH [OF es] by blast
  then have "objects st' = objects st @ (obj # new) \<and> length (obj # new) = length (e # es)"
    by (simp add: st1)
  then show ?case by blast
qed

lemma process_entries_nth:
  assumes "process_entries st es = Inr st'" and "i < length es"
  shows "\<exists>st0 st1. process_entry st0 (es ! i) = Inr st1 \<and>
           objects st' ! (length (objects st) + i) = last (objects st1)"
  using assms
proof (induction es arbitrary: st i)
  case Nil
  then show ?case by simp
next
  case (Cons e es)
  obtain st1 where e: "process_entry st e = Inr st1" and es: "process_entries st1 es = Inr st'"
    using Cons.prems(1) by (rule process_entries_Cons)
  from e obtain obj where st1: "objects st1 = objects st @ [obj]"
    by (rule process_entry_Inr) simp
  show ?case
  proof (cases i)
    case 0
    obtain new where "objects st' = objects st1 @ new"
      using process_entries_objects [OF es] by blast
    then have "objects st' ! (length (objects st) + i) = last (objects st1)"
      by (simp add: st1 0 nth_append)
    then show ?thesis using e 0 by auto
  next
    case (Suc k)
    then have "k < length es" using Cons.prems(2) by simp
    from Cons.IH [OF es this] show ?thesis by (simp add: Suc st1)
  qed
qed

lemma map_fst_odict_append: "map fst (odict_append od d r) = map fst od"
  by (induction od) (auto simp: odict_append_def)

lemma map_fst_add_to_day:
  "map fst (add_to_day od d r) = (if d \<in> set (map fst od) then map fst od else map fst od @ [d])"
proof (cases "d \<in> fst ` set od")
  case True
  then show ?thesis by (simp add: add_to_day_present map_fst_odict_append)
next
  case False
  then show ?thesis by (simp add: add_to_day_new)
qed

lemma remdups_snoc: "remdups (xs @ [d]) = filter (\<lambda>x. x \<noteq> d) (remdups xs) @ [d]"
  by (induction xs) auto

lemma first_seen_Cons:
  "rev (remdups (rev (d # ds))) = d # filter (\<lambda>x. x \<noteq> d) (rev (remdups (rev ds)))"
  by (simp add: remdups_snoc rev_filter)

lemma process_entries_keys:
  "process_entries st es = Inr st' \<Longrightarrow>
     map fst (forecasts_ordered st') =
       map fst (forecasts_ordered st) @
       filter (\<lambda>d. d \<notin> set (map fst (forecasts_ordered st)))
         (rev (remdups (rev (map entry_day es))))"
proof (induction es arbitrary: st)
  case Nil
  then show ?case by simp
next
  case (Cons e es)
  obtain st1 where e: "process_entry st e = Inr st1" and es: "process_entries st1 es = Inr st'"
    using Cons.prems by (rule process_entries_Cons)
  from e obtain t where t: "strptime (validTime e) = Some t"
    and st1: "forecasts_ordered st1 = add_to_day (forecasts_ordered st) (day t) (length (objects st))"
    by (rule process_entry_Inr) simp
  have d: "entry_day e = day t" by (simp add: entry_day_def t)
  let ?ks = "map fst (forecasts_ordered st)"
  let ?R = "rev (remdups (rev (map entry_day es)))"
  have ih: "map fst (forecasts_ordered st') =
      map fst (forecasts_ordered st1) @ filter (\<lambda>d. d \<notin> set (map fst (forecasts_ordered st1))) ?R"
    by (rule Cons.IH [OF es])
  have R: "rev (remdups (rev (map entry_day (e # es)))) = day t # filter (\<lambda>x. x \<noteq> day t) ?R"
    using first_seen_Cons [of "entry_day e" "map entry_day es"] by (simp add: d)
  show ?case
  proof (cases "day t \<in> set ?ks")
    case True
    then have "map fst (forecasts_ordered st1) = ?ks" by (simp add: st1 map_fst_add_to_day)
    moreover have "filter (\<lambda>d. d \<notin> set ?ks) (filter (\<lambda>x. x \<noteq> day t) ?R) =
        filter (\<lambda>d. d \<notin> set ?ks) ?R"
      using True by (auto intro: filter_cong)
    ultimately show ?thesis unfolding R ih using True by simp
  next
    case False
    then have "map fst (forecasts_ordered st1) = ?ks @ [day t]"
      by (simp add: st1 map_fst_add_to_day)
    moreover have "filter (\<lambda>d. d \<notin> set (?ks @ [day t])) ?R =
        filter (\<lambda>d. d \<notin> set ?ks) (filter (\<lambda>x. x \<noteq> day t) ?R)"
      by (auto intro: filter_cong)
    ultimately show ?thesis unfolding R ih using False by simp
  qed
qed

subsection \<open>Parameters and variables\<close>













lemma read_param_cloudiness_other:
  "read_param l p = Inr l' \<Longrightarrow> name p \<noteq> ''tcc_mean'' \<Longrightarrow> var_cloudiness l' = var_cloudiness l"
  unfolding read_param_def by (auto split: if_splits sum.splits)

lemma read_param_cloudiness:
  "read_param l p = Inr l' \<Longrightarrow> name p = ''tcc_mean'' \<Longrightarrow> values p = v # vs \<Longrightarrow>
     var_cloudiness l' = Some (octa_to_cloudiness (py_int v))"
  unfolding read_param_def by (auto simp: first_value_def split: if_splits sum.splits)

lemma read_params_cloudiness_other:
  "read_params l ps = Inr l' \<Longrightarrow> filter (\<lambda>p. name p = ''tcc_mean'') ps = [] \<Longrightarrow>
     var_cloudiness l' = var_cloudiness l"
proof (induction ps arbitrary: l)
  case Nil
  then show ?case by simp
next
  case (Cons p ps)
  then obtain l1 where l1: "read_param l p = Inr l1" "read_params l1 ps = Inr l'"
    by (auto split: sum.splits)
  have "name p \<noteq> ''tcc_mean''" "filter (\<lambda>p. name p = ''tcc_mean'') ps = []"
    using Cons.prems(2) by (auto split: if_splits)
  then show ?case
    using Cons.IH [OF l1(2)] read_param_cloudiness_other [OF l1(1)] by simp
qed

lemma read_params_cloudiness:
  "read_params l ps = Inr l' \<Longrightarrow> filter (\<lambda>p. name p = ''tcc_mean'') ps \<noteq> [] \<Longrightarrow>
     values (last (filter (\<lambda>p. name p = ''tcc_mean'') ps)) = v # vs \<Longrightarrow>
     var_cloudiness l' = Some (octa_to_cloudiness (py_int v))"
proof (induction ps arbitrary: l)
  case Nil
  then show ?case by simp
next
  case (Cons p ps)
  then obtain l1 where l1: "read_param l p = Inr l1" "read_params l1 ps = Inr l'"
    by (auto split: sum.splits)
  show ?case
  proof (cases "filter (\<lambda>p. name p = ''tcc_mean'') ps = []")
    case True
    then have p: "name p = ''tcc_mean''" "values p = v # vs"
      using Cons.prems(2,3) by (auto split: if_splits)
    have "var_cloudiness l' = var_cloudiness l1"
      by (rule read_params_cloudiness_other [OF l1(2) True])
    then show ?thesis using read_param_cloudiness [OF l1(1) p] by simp
  next
    case False
    then have "values (last (filter (\<lambda>p. name p = ''tcc_mean'') ps)) = v # vs"
      using Cons.prems(3) by (auto split: if_splits)
    then show ?thesis using Cons.IH [OF l1(2) False] by simp
  qed
qed

lemma build_forecast_cloudiness:
  "build_forecast l hrs t = Some obj \<Longrightarrow> var_cloudiness l = Some (cloudiness obj)"
  by (auto simp: build_forecast_def Let_def split: Option.bind_splits)

subsection \<open>The first day group\<close>

lemma process_entry_fields:
  assumes "process_entry st e = Inr st'"
  shows "\<exists>t obj. strptime (validTime e) = Some t \<and> valid_time obj = t \<and>
           forecasts_ordered st' =
             add_to_day (forecasts_ordered st) (day t) (length (objects st)) \<and>
           objects st' = objects st @ [obj]"
proof -
  from assms obtain t l obj where t: "strptime (validTime e) = Some t"
    and b: "build_forecast l
       (case last_time st of None \<Rightarrow> total_hours_last_forecast st
        | Some lt \<Rightarrow> of_int (seconds (datetime_sub t lt)) / 60 / 60) t = Some obj"
    and st': "st' = \<lparr>vars = l,
           total_hours_last_forecast =
             (case last_time st of None \<Rightarrow> total_hours_last_forecast st
              | Some lt \<Rightarrow> of_int (seconds (datetime_sub t lt)) / 60 / 60),
           last_time = Some t,
           forecasts_ordered = add_to_day (forecasts_ordered st) (day t) (length (objects st)),
           objects = objects st @ [obj]\<rparr>"
    by (rule process_entry_Inr)
  have "valid_time obj = t" using b by (rule build_forecast_valid_time)
  moreover have "forecasts_ordered st' =
      add_to_day (forecasts_ordered st) (day t) (length (objects st))"
    "objects st' = objects st @ [obj]" by (simp_all add: st')
  ultimately show ?thesis using t by blast
qed

lemma add_to_day_hd:
  assumes "od \<noteq> []" and "snd (hd od) \<noteq> []"
  shows "add_to_day od d r \<noteq> [] \<and> hd (snd (hd (add_to_day od d r))) = hd (snd (hd od))"
proof -
  obtain k rs od' where od: "od = (k, rs) # od'" using assms(1) by (cases od) auto
  have rs: "rs \<noteq> []" using assms(2) od by simp
  show ?thesis
  proof (cases "d \<in> fst ` set od")
    case True
    then show ?thesis using rs by (simp add: add_to_day_present od odict_append_Cons)
  next
    case False
    then show ?thesis by (simp add: add_to_day_new od)
  qed
qed

lemma process_entries_hd:
  "process_entries st es = Inr st' \<Longrightarrow> day_groups_ok (forecasts_ordered st) (objects st) \<Longrightarrow>
     forecasts_ordered st \<noteq> [] \<Longrightarrow>
     forecasts_ordered st' \<noteq> [] \<and>
     hd (snd (hd (forecasts_ordered st'))) = hd (snd (hd (forecasts_ordered st)))"
proof (induction es arbitrary: st)
  case Nil
  then show ?case by simp
next
  case (Cons e es)
  obtain st1 where e: "process_entry st e = Inr st1" and es: "process_entries st1 es = Inr st'"
    using Cons.prems(1) by (rule process_entries_Cons)
  have ok1: "day_groups_ok (forecasts_ordered st1) (objects st1)"
    using process_entries_ok [OF Cons.prems(2), of "[e]" st1] e by simp
  from process_entry_fields [OF e] obtain t :: datetime where
    st1: "forecasts_ordered st1 = add_to_day (forecasts_ordered st) (day t) (length (objects st))"
    by blast
  have "snd (hd (forecasts_ordered st)) \<noteq> []"
    using Cons.prems(2,3) by (simp add: day_groups_ok_def)
  then have "forecasts_ordered st1 \<noteq> [] \<and>
      hd (snd (hd (forecasts_ordered st1))) = hd (snd (hd (forecasts_ordered st)))"
    unfolding st1 using Cons.prems(3) by (intro add_to_day_hd)
  then show ?case using Cons.IH [OF es ok1] by simp
qed

subsection \<open>The two functions as a whole\<close>

lemma get_all_forecast_from_api_Inr:
  assumes "get_all_forecast_from_api a = Inr (od, h0)"
  obtains ts st where "timeSeries a = Some ts" "process_entries initial_state ts = Inr st"
    "od = forecasts_ordered st" "h0 = objects st"
  using assms by (auto simp: get_all_forecast_from_api_def split: option.splits sum.splits)

lemma initial_state_ok: "day_groups_ok (forecasts_ordered initial_state) (objects initial_state)"
  by (simp add: initial_state_def day_groups_ok_def)

lemma get_all_groups:
  assumes "get_all_forecast_from_api a = Inr (od, h0)"
  shows "day_groups_ok od h0"
proof -
  from assms obtain ts st where "process_entries initial_state ts = Inr st"
    "od = forecasts_ordered st" "h0 = objects st"
    by (rule get_all_forecast_from_api_Inr)
  then show ?thesis using process_entries_ok [OF initial_state_ok] by simp
qed

lemma day_groups_ok_below:
  assumes "day_groups_ok od h" and "g \<in> set od" and "r \<in> set (snd g)"
  shows "r < length h"
proof -
  have all: "set (concat (map snd od)) = {..<length h}"
    using assms(1) by (simp add: day_groups_ok_def)
  have "r \<in> set (concat (map snd od))" using assms(2,3) by auto
  then show ?thesis unfolding all by simp
qed

lemma get_all_keys:
  assumes "get_all_forecast_from_api a = Inr (od, h0)" and "timeSeries a = Some ts"
  shows "map fst od = rev (remdups (rev (map entry_day ts)))"
proof -
  from assms obtain st where "process_entries initial_state ts = Inr st"
    "od = forecasts_ordered st"
    by (auto elim: get_all_forecast_from_api_Inr)
  then show ?thesis using process_entries_keys [of initial_state ts st]
    by (simp add: initial_state_def)
qed

lemma get_all_first:
  assumes "get_all_forecast_from_api a = Inr (od, h0)" and "timeSeries a = Some (e # es)"
  shows "od \<noteq> [] \<and> hd (snd (hd od)) = 0 \<and>
    (\<exists>t l. strptime (validTime e) = Some t \<and> read_params no_locals (parameters e) = Inr l \<and>
       build_forecast l 1 t = Some (h0 ! 0))"
proof -
  from assms obtain st where st: "process_entries initial_state (e # es) = Inr st"
    and od: "od = forecasts_ordered st" and h0: "h0 = objects st"
    by (auto elim: get_all_forecast_from_api_Inr)
  obtain st1 where e: "process_entry initial_state e = Inr st1"
    and es: "process_entries st1 es = Inr st"
    using st by (rule process_entries_Cons)
  from e obtain t l obj where t: "strptime (validTime e) = Some t"
    and l: "read_params (vars initial_state) (parameters e) = Inr l"
    and b: "build_forecast l
       (case last_time initial_state of None \<Rightarrow> total_hours_last_forecast initial_state
        | Some lt \<Rightarrow> of_int (seconds (datetime_sub t lt)) / 60 / 60) t = Some obj"
    and st1: "st1 = \<lparr>vars = l,
           total_hours_last_forecast =
             (case last_time initial_state of None \<Rightarrow> total_hours_last_forecast initial_state
              | Some lt \<Rightarrow> of_int (seconds (datetime_sub t lt)) / 60 / 60),
           last_time = Some t,
           forecasts_ordered =
             add_to_day (forecasts_ordered initial_state) (day t)
               (length (objects initial_state)),
           objects = objects initial_state @ [obj]\<rparr>"
    by (rule process_entry_Inr)
  have fo1: "forecasts_ordered st1 = [(day t, [0])]" and ob1: "objects st1 = [obj]"
    by (simp_all add: st1 initial_state_def add_to_day_new)
  have ok1: "day_groups_ok (forecasts_ordered st1) (objects st1)"
    using process_entries_ok [OF initial_state_ok, of "[e]" st1] e by simp
  have "forecasts_ordered st \<noteq> [] \<and> hd (snd (hd (forecasts_ordered st))) = 0"
    using process_entries_hd [OF es ok1] by (simp add: fo1)
  moreover obtain new where "objects st = [obj] @ new"
    using process_entries_objects [OF es] ob1 by auto
  then have "h0 ! 0 = obj" by (simp add: h0)
  moreover have "read_params no_locals (parameters e) = Inr l"
    "build_forecast l 1 t = Some obj"
    using l b by (simp_all add: initial_state_def)
  ultimately show ?thesis using t unfolding od by blast
qed

lemma get_forecast_summary:
  assumes "get_all_forecast_from_api a = Inr (od, h0)"
  shows "\<exists>reps h.
      get_forecast a = Inr ((if od \<noteq> [] then [length h0] else []) @ reps, h)
    \<and> length reps = length od
    \<and> length h0 \<le> length h
    \<and> (\<forall>j<length od. h ! (reps ! j) =
          day_summary (map ((!) h0) (snd (od ! j))) (h0 ! noon_choice h0 (snd (od ! j))))
    \<and> (\<forall>j<length od. reps ! j < length h \<and>
          (if filter (noon_hour h0) (snd (od ! j)) = [] then reps ! j = hd (snd (od ! j))
           else length h0 + 1 \<le> reps ! j))
    \<and> (od \<noteq> [] \<longrightarrow> h ! length h0 = h0 ! hd (snd (hd od)))"
proof -
  have ok: "day_groups_ok od h0" using assms by (rule get_all_groups)
  have all: "set (concat (map snd od)) = {..<length h0}"
    and dist: "distinct (concat (map snd od))"
    and ne: "\<forall>g\<in>set od. snd g \<noteq> []"
    using ok by (simp_all add: day_groups_ok_def)
  have groups: "\<forall>rs\<in>set (map snd od). rs \<noteq> [] \<and> (\<forall>r\<in>set rs. r < length h0)"
  proof (intro ballI conjI)
    fix rs assume rs: "rs \<in> set (map snd od)"
    then show "rs \<noteq> []" using ne by auto
    fix r assume "r \<in> set rs"
    then have "r \<in> set (concat (map snd od))" using rs by auto
    then show "r < length h0" unfolding all by simp
  qed
  have eq: "get_forecast a = process_days 1 od ([], h0)"
    by (simp add: get_forecast_def assms)
  obtain reps h where
        run: "process_days 1 od ([], h0) =
                Inr ([] @ (if 1 = (1::nat) \<and> od \<noteq> [] then [length h0] else []) @ reps, h)"
    and len: "length reps = length od" "length h0 \<le> length h"
    and sums: "\<forall>j<length od. h ! (reps ! j) =
          day_summary (map ((!) h0) (snd (od ! j))) (h0 ! noon_choice h0 (snd (od ! j)))"
    and reps: "\<forall>j<length od. reps ! j < length h \<and>
          (if filter (noon_hour h0) (snd (od ! j)) = [] then reps ! j = hd (snd (od ! j))
           else length h0 + (if 1 = (1::nat) then 1 else 0) \<le> reps ! j)"
    and first: "1 = (1::nat) \<and> od \<noteq> [] \<longrightarrow> h ! length h0 = h0 ! hd (snd (hd od))"
    using process_days_eq [of 1 od h0 h0 "[]", OF _ groups dist] by auto
  have "get_forecast a = Inr ((if od \<noteq> [] then [length h0] else []) @ reps, h)"
    using run by (simp add: eq)
  moreover have "\<forall>j<length od. reps ! j < length h \<and>
          (if filter (noon_hour h0) (snd (od ! j)) = [] then reps ! j = hd (snd (od ! j))
           else length h0 + 1 \<le> reps ! j)"
  proof (intro allI impI)
    fix j assume j: "j < length od"
    show "reps ! j < length h \<and>
          (if filter (noon_hour h0) (snd (od ! j)) = [] then reps ! j = hd (snd (od ! j))
           else length h0 + 1 \<le> reps ! j)"
      using reps [rule_format, OF j]
      by (cases "filter (noon_hour h0) (snd (od ! j)) = []") simp_all
  qed
  moreover have "od \<noteq> [] \<longrightarrow> h ! length h0 = h0 ! hd (snd (hd od))"
    using first by simp
  ultimately show ?thesis using len sums by blast
qed

subsection \<open>The functions on the sample inputs\<close>

lemma two_noons_all:
  "get_all_forecast_from_api two_noons =
     Inr ([(1, [0, 1])],
          [sample_forecast 5 80 1 1 (jan 1 12 0), sample_forecast 7 99 1 (1 / 2) (jan 1 12 30)])"
  by code_simp

lemma two_noons_forecast:
  "get_forecast two_noons =
     Inr ([2, 4],
          [sample_forecast 5 80 1 1 (jan 1 12 0), sample_forecast 7 99 1 (1 / 2) (jan 1 12 30),
           sample_forecast 5 80 1 1 (jan 1 12 0), sample_forecast 5 80 1 1 (jan 1 12 0),
           (sample_forecast 7 99 1 (1 / 2) (jan 1 12 30))
             \<lparr>temperature_max := 7, temperature_min := 5, total_precipitation := 3 / 2,
              mean_precipitation := 1 / 16\<rparr>])"
  by code_simp

lemma no_noon_all:
  "get_all_forecast_from_api no_noon =
     Inr ([(1, [0, 1])],
          [sample_forecast 5 80 1 1 (jan 1 10 0), sample_forecast 7 81 1 1 (jan 1 11 0)])"
  by code_simp

lemma no_noon_forecast:
  "get_forecast no_noon =
     Inr ([2, 0],
          [(sample_forecast 5 80 1 1 (jan 1 10 0))
             \<lparr>temperature_max := 7, temperature_min := 5, total_precipitation := 2,
              mean_precipitation := 1 / 12\<rparr>,
           sample_forecast 7 81 1 1 (jan 1 11 0), sample_forecast 5 80 1 1 (jan 1 10 0)])"
  by code_simp

lemma long_gap_all:
  "get_all_forecast_from_api long_gap =
     Inr ([(1, [0]), (2, [1])],
          [sample_forecast 5 80 1 1 (jan 1 0 0), sample_forecast 7 81 1 1 (jan 2 1 0)])"
  by code_simp

lemma long_gap_forecast:
  "get_forecast long_gap =
     Inr ([2, 0, 1],
          [(sample_forecast 5 80 1 1 (jan 1 0 0))
             \<lparr>temperature_max := 5, temperature_min := 5, total_precipitation := 1,
              mean_precipitation := 1 / 24\<rparr>,
           (sample_forecast 7 81 1 1 (jan 2 1 0))
             \<lparr>temperature_max := 7, temperature_min := 7, total_precipitation := 1,
              mean_precipitation := 1 / 24\<rparr>,
           sample_forecast 5 80 1 1 (jan 1 0 0)])"
  by code_simp



lemma three_octas_all:
  "get_all_forecast_from_api three_octas =
     Inr ([(1, [0])], [(sample_forecast 5 80 1 1 (jan 1 12 0))\<lparr>cloudiness := 38\<rparr>])"
  by code_simp


lemma hot_day_all:
  "get_all_forecast_from_api hot_day =
     Inr ([(1, [0])], [sample_forecast 150 80 1 1 (jan 1 12 0)])"
  by code_simp

lemma hot_day_forecast:
  "get_forecast hot_day =
     Inr ([1, 2],
          [sample_forecast 150 80 1 1 (jan 1 12 0), sample_forecast 150 80 1 1 (jan 1 12 0),
           (sample_forecast 150 80 1 1 (jan 1 12 0))
             \<lparr>temperature_max := 150, temperature_min := 100, total_precipitation := 1,
              mean_precipitation := 1 / 24\<rparr>])"
  by code_simp

subsection \<open>The shape of the result\<close>

lemma get_forecast_tl:
  assumes all: "get_all_forecast_from_api a = Inr (od, h0)"
    and res: "get_forecast a = Inr (out, h)"
  shows "length (tl out) = length od"
    and "od \<noteq> [] \<Longrightarrow> out = length h0 # tl out"
    and "od \<noteq> [] \<Longrightarrow> h ! length h0 = h0 ! hd (snd (hd od))"
    and "j < length od \<Longrightarrow> out ! Suc j = tl out ! j"
    and "j < length od \<Longrightarrow> h ! (tl out ! j) =
          day_summary (map ((!) h0) (snd (od ! j))) (h0 ! noon_choice h0 (snd (od ! j)))"
    and "j < length od \<Longrightarrow> filter (noon_hour h0) (snd (od ! j)) = [] \<Longrightarrow>
          tl out ! j = hd (snd (od ! j))"
    and "j < length od \<Longrightarrow> filter (noon_hour h0) (snd (od ! j)) \<noteq> [] \<Longrightarrow>
          length h0 + 1 \<le> tl out ! j"
proof -
  obtain reps h' where
        run: "get_forecast a = Inr ((if od \<noteq> [] then [length h0] else []) @ reps, h')"
    and len: "length reps = length od"
    and sums: "\<forall>j<length od. h' ! (reps ! j) =
          day_summary (map ((!) h0) (snd (od ! j))) (h0 ! noon_choice h0 (snd (od ! j)))"
    and reps: "\<forall>j<length od. reps ! j < length h' \<and>
          (if filter (noon_hour h0) (snd (od ! j)) = [] then reps ! j = hd (snd (od ! j))
           else length h0 + 1 \<le> reps ! j)"
    and first: "od \<noteq> [] \<longrightarrow> h' ! length h0 = h0 ! hd (snd (hd od))"
    using get_forecast_summary [OF all] by blast
  have out: "out = (if od \<noteq> [] then [length h0] else []) @ reps" and h: "h' = h"
    using run res by simp_all
  have tl: "tl out = reps"
    using len by (cases "od = []") (simp_all add: out)
  show "length (tl out) = length od" unfolding tl by (rule len)
  show c: "od \<noteq> [] \<Longrightarrow> out = length h0 # tl out" unfolding tl by (simp add: out)
  show "od \<noteq> [] \<Longrightarrow> h ! length h0 = h0 ! hd (snd (hd od))" using first h by simp
  show "j < length od \<Longrightarrow> out ! Suc j = tl out ! j"
  proof -
    assume "j < length od"
    then have "od \<noteq> []" by auto
    then have "out = length h0 # tl out" by (rule c)
    then show ?thesis by (metis nth_Cons_Suc)
  qed
  show "j < length od \<Longrightarrow> h ! (tl out ! j) =
          day_summary (map ((!) h0) (snd (od ! j))) (h0 ! noon_choice h0 (snd (od ! j)))"
    unfolding tl using sums h by simp
  show "j < length od \<Longrightarrow> filter (noon_hour h0) (snd (od ! j)) = [] \<Longrightarrow>
          tl out ! j = hd (snd (od ! j))"
    unfolding tl using reps [rule_format, of j] by simp
  show "j < length od \<Longrightarrow> filter (noon_hour h0) (snd (od ! j)) \<noteq> [] \<Longrightarrow>
          length h0 + 1 \<le> tl out ! j"
    unfolding tl using reps [rule_format, of j] by simp
qed

lemma get_forecast_needs_all:
  assumes "get_forecast a = Inr (out, h)"
  obtains od h0 where "get_all_forecast_from_api a = Inr (od, h0)"
  using assms by (auto simp: get_forecast_def split: sum.splits)

subsection \<open>When the transform succeeds, and what an entry stores\<close>









section \<open>The claims\<close>

text \<open>
  C1, as the code has it. An input without the key \<^verbatim>\<open>timeSeries\<close> makes the transform
  fail, with the \<^verbatim>\<open>KeyError\<close> of the dictionary access (the module has no error kind
  of its own for malformed data). An empty \<^verbatim>\<open>timeSeries\<close> does not fail: both loops
  run zero times and the empty list is returned.
\<close>

theorem timeSeries_absent_or_empty:
  "(timeSeries a = None \<longrightarrow> get_forecast a = Inl KeyError) \<and>
   (timeSeries a = Some [] \<longrightarrow> get_forecast a = Inr ([], []))"
  by (simp add: get_forecast_def get_all_forecast_from_api_def initial_state_def)

theorem timeSeries_absent_or_empty_witness:
  "timeSeries \<lparr>timeSeries = None\<rparr> = None \<and>
   get_forecast \<lparr>timeSeries = None\<rparr> = Inl KeyError \<and>
   timeSeries \<lparr>timeSeries = Some []\<rparr> = Some [] \<and>
   get_forecast \<lparr>timeSeries = Some []\<rparr> = Inr ([], [])"
  using timeSeries_absent_or_empty [of "\<lparr>timeSeries = None\<rparr>"]
    timeSeries_absent_or_empty [of "\<lparr>timeSeries = Some []\<rparr>"]
  by simp

text \<open>
  C1 as stated fails: on the empty time series the transform returns the empty output
  sequence instead of failing.
\<close>

theorem empty_timeSeries_returns_empty:
  "get_forecast \<lparr>timeSeries = Some []\<rparr> = Inr ([], [])"
  by (simp add: get_forecast_def get_all_forecast_from_api_def initial_state_def)

text \<open>
  C2 on the input \<open>long_gap\<close>, whose two entries are 25 hours apart. The code takes
  the \<^verbatim>\<open>seconds\<close> field of the time difference, which leaves the whole days out: the
  second entry is stored with \<open>total_precipitation = round(1 * 1.0, 2) = 1\<close>, whereas the
  full elapsed time of 90000 seconds gives \<open>round(1 * 25.0, 2) = 25\<close>.
\<close>

theorem long_gap_total_precipitation:
  "get_all_forecast_from_api long_gap =
     Inr ([(1, [0]), (2, [1])],
          [sample_forecast 5 80 1 1 (jan 1 0 0), sample_forecast 7 81 1 1 (jan 2 1 0)]) \<and>
   total_precipitation (sample_forecast 7 81 1 1 (jan 2 1 0)) = 1 \<and>
   seconds (datetime_sub (jan 2 1 0) (jan 1 0 0)) = 3600 \<and>
   total_seconds (datetime_sub (jan 2 1 0) (jan 1 0 0)) = 90000 \<and>
   round_ndigits (1 * (of_int (total_seconds (datetime_sub (jan 2 1 0) (jan 1 0 0))) / 60 / 60)) 2
     = 25"
proof -
  have "seconds (datetime_sub (jan 2 1 0) (jan 1 0 0)) = 3600"
    "total_seconds (datetime_sub (jan 2 1 0) (jan 1 0 0)) = 90000"
    by code_simp+
  moreover have "round_ndigits (1 * (of_int 90000 / 60 / 60)) 2 = 25" by code_simp
  moreover have "total_precipitation (sample_forecast 7 81 1 1 (jan 2 1 0)) = 1"
    by (simp add: sample_forecast_def)
  ultimately show ?thesis using long_gap_all by simp
qed

text \<open>
  C3, as the code has it. For every day group (the \<open>j\<close>-th list of the dictionary, whose
  aggregated entry is the output element \<open>j + 1\<close>), the aggregated entry is the day's
  last raw sample at hour 12, or the day's first raw sample when none is at hour 12,
  with the four aggregate fields overwritten.
\<close>

theorem representative_is_last_noon_entry:
  assumes "get_all_forecast_from_api a = Inr (od, h0)"
    and "get_forecast a = Inr (out, h)"
    and "j < length od"
    and "rs = snd (od ! j)"
    and "ns = filter (\<lambda>r. hour (valid_time (h0 ! r)) = 12) rs"
  shows "h ! (out ! Suc j) =
           day_summary (map ((!) h0) rs) (h0 ! (if ns = [] then hd rs else last ns))"
proof -
  have ns: "ns = filter (noon_hour h0) rs"
    unfolding assms(5) by (intro filter_cong) (simp_all add: noon_hour_def)
  have "noon_choice h0 rs = (if ns = [] then hd rs else last ns)"
    by (cases ns) (simp_all add: noon_choice_def ns [symmetric])
  then show ?thesis
    using get_forecast_tl(4,5) [OF assms(1,2,3)] by (simp add: assms(4))
qed

theorem representative_is_last_noon_entry_witness:
  "get_all_forecast_from_api two_noons =
     Inr ([(1, [0, 1])],
          [sample_forecast 5 80 1 1 (jan 1 12 0), sample_forecast 7 99 1 (1 / 2) (jan 1 12 30)]) \<and>
   (0::nat) < length [(1::int, [0::nat, 1])] \<and>
   result_values (get_forecast two_noons) ! Suc 0 =
     day_summary
       [sample_forecast 5 80 1 1 (jan 1 12 0), sample_forecast 7 99 1 (1 / 2) (jan 1 12 30)]
       (sample_forecast 7 99 1 (1 / 2) (jan 1 12 30))"
  using representative_is_last_noon_entry [OF two_noons_all two_noons_forecast, of 0 "[0, 1]" "[0, 1]"]
    two_noons_all
  by (simp add: two_noons_forecast result_values_def sample_forecast_def jan_def)

text \<open>
  C3 as stated fails on \<open>two_noons\<close>: the day's list holds the entries of 12:00 and
  12:30, both at hour 12; the aggregated entry is the one of 12:30, the last and not the
  first of them.
\<close>

theorem two_noons_representative_is_second:
  "get_all_forecast_from_api two_noons =
     Inr ([(1, [0, 1])],
          [sample_forecast 5 80 1 1 (jan 1 12 0), sample_forecast 7 99 1 (1 / 2) (jan 1 12 30)]) \<and>
   map valid_time (result_values (get_forecast two_noons)) = [jan 1 12 0, jan 1 12 30] \<and>
   map humidity (result_values (get_forecast two_noons)) = [80, 99] \<and>
   hour (jan 1 12 0) = 12 \<and> jan 1 12 0 \<noteq> jan 1 12 30"
  using two_noons_all
  by (simp add: two_noons_forecast result_values_def sample_forecast_def jan_def)

text \<open>
  C4 on the input \<open>no_noon\<close>, a day without an entry at hour 12. The day's list holds
  the addresses 0 and 1; the returned list is \<open>[2, 0]\<close>: the day's representative is
  address 0, the day's first raw sample itself and not a copy, and writing the aggregates
  has changed that raw sample in the store (\<open>temperature_max\<close> from 5 to 7,
  \<open>total_precipitation\<close> from 1 to 2, \<open>mean_precipitation\<close> from 1 to 1/12).
\<close>

theorem no_noon_representative_aliases_first_sample:
  "get_all_forecast_from_api no_noon =
     Inr ([(1, [0, 1])],
          [sample_forecast 5 80 1 1 (jan 1 10 0), sample_forecast 7 81 1 1 (jan 1 11 0)]) \<and>
   get_forecast no_noon =
     Inr ([2, 0],
          [(sample_forecast 5 80 1 1 (jan 1 10 0))
             \<lparr>temperature_max := 7, temperature_min := 5, total_precipitation := 2,
              mean_precipitation := 1 / 12\<rparr>,
           sample_forecast 7 81 1 1 (jan 1 11 0), sample_forecast 5 80 1 1 (jan 1 10 0)]) \<and>
   (sample_forecast 5 80 1 1 (jan 1 10 0))
             \<lparr>temperature_max := 7, temperature_min := 5, total_precipitation := 2,
              mean_precipitation := 1 / 12\<rparr> \<noteq> sample_forecast 5 80 1 1 (jan 1 10 0)"
  using no_noon_all no_noon_forecast by (simp add: sample_forecast_def)




text \<open>
  C6. A valid input has a non-empty time series (the spec counts the empty one as
  malformed) and makes the transform succeed. Then the output has one element more than
  there are day groups, there are as many day groups as distinct days of month among the
  entries, and the days of the aggregated entries (the output without its first element)
  are the entries' days in the order of their first occurrence
  (\<open>rev (remdups (rev ds))\<close> keeps the first occurrence of each element of \<open>ds\<close>).
\<close>

theorem output_length_and_order:
  assumes "get_all_forecast_from_api a = Inr (od, h0)"
    and "get_forecast a = Inr (out, h)"
    and "timeSeries a = Some ts"
    and "ts \<noteq> []"
  shows "length out = 1 + length od \<and>
         length od = card (set (map entry_day ts)) \<and>
         map fst od = rev (remdups (rev (map entry_day ts))) \<and>
         map (\<lambda>r. day (valid_time (h ! r))) (tl out) = rev (remdups (rev (map entry_day ts)))"
proof -
  obtain e es where ts: "ts = e # es" using assms(4) by (cases ts) auto
  have od: "od \<noteq> []" using get_all_first [OF assms(1)] assms(3) ts by simp
  have len_tl: "length (tl out) = length od" by (rule get_forecast_tl(1) [OF assms(1,2)])
  have "out = length h0 # tl out" by (rule get_forecast_tl(2) [OF assms(1,2) od])
  then have "length out = Suc (length (tl out))" by (metis length_Cons)
  then have len: "length out = 1 + length od" using len_tl by simp
  have keys: "map fst od = rev (remdups (rev (map entry_day ts)))"
    by (rule get_all_keys [OF assms(1,3)])
  have "length od = length (map fst od)" by simp
  also have "\<dots> = card (set (map entry_day ts))"
    unfolding keys by (simp add: length_remdups_card_conv)
  finally have card: "length od = card (set (map entry_day ts))" .
  have ok: "day_groups_ok od h0" by (rule get_all_groups [OF assms(1)])
  have "map (\<lambda>r. day (valid_time (h ! r))) (tl out) = map fst od"
  proof (rule nth_equalityI)
    show "length (map (\<lambda>r. day (valid_time (h ! r))) (tl out)) = length (map fst od)"
      using len_tl by simp
  next
    fix j assume "j < length (map (\<lambda>r. day (valid_time (h ! r))) (tl out))"
    then have j: "j < length od" using len_tl by simp
    let ?rs = "snd (od ! j)"
    have g: "od ! j \<in> set od" using j by simp
    then have ne: "?rs \<noteq> []"
      and days: "\<forall>r\<in>set ?rs. day (valid_time (h0 ! r)) = fst (od ! j)"
      using ok by (simp_all add: day_groups_ok_def)
    have "h ! (tl out ! j) = day_summary (map ((!) h0) ?rs) (h0 ! noon_choice h0 ?rs)"
      by (rule get_forecast_tl(5) [OF assms(1,2) j])
    then have "valid_time (h ! (tl out ! j)) = valid_time (h0 ! noon_choice h0 ?rs)"
      by (simp add: day_summary_def)
    moreover have "noon_choice h0 ?rs \<in> set ?rs" by (rule noon_choice_in [OF ne])
    ultimately have "day (valid_time (h ! (tl out ! j))) = fst (od ! j)"
      using days by simp
    then show "map (\<lambda>r. day (valid_time (h ! r))) (tl out) ! j = map fst od ! j"
      using j len_tl by simp
  qed
  then show ?thesis using len card keys by simp
qed

theorem output_length_and_order_witness:
  "get_all_forecast_from_api long_gap =
     Inr ([(1, [0]), (2, [1])],
          [sample_forecast 5 80 1 1 (jan 1 0 0), sample_forecast 7 81 1 1 (jan 2 1 0)]) \<and>
   the (timeSeries long_gap) \<noteq> [] \<and>
   length [2::nat, 0, 1] = 1 + length [(1::int, [0::nat]), (2, [1])] \<and>
   map day (map valid_time (tl (result_values (get_forecast long_gap)))) = [1, 2] \<and>
   rev (remdups (rev (map entry_day (the (timeSeries long_gap))))) = [1, 2]"
proof -
  have ts: "timeSeries long_gap = Some (the (timeSeries long_gap))"
    "the (timeSeries long_gap) \<noteq> []"
    by (simp_all add: long_gap_def)
  have "rev (remdups (rev (map entry_day (the (timeSeries long_gap))))) = [1, 2]"
    by code_simp
  then show ?thesis
    using output_length_and_order [OF long_gap_all long_gap_forecast ts] long_gap_all ts(2)
    by (simp add: long_gap_forecast result_values_def sample_forecast_def jan_def)
qed

text \<open>
  C7, as the code has it. The running extrema start from \<open>-100\<close> and \<open>100\<close>, so an
  aggregated day entry has \<open>temperature_max\<close> the largest of \<open>-100\<close> and the day's
  rounded temperatures and \<open>temperature_min\<close> the smallest of \<open>100\<close> and them. Always
  \<open>temperature_min \<le> temperature_max\<close>; and when some rounded temperature of the day is
  at least \<open>-100\<close> and some is at most \<open>100\<close>, the two are the maximum and the minimum
  of the day's rounded temperatures, hence between them.
\<close>

theorem day_temperature_extrema:
  assumes "get_all_forecast_from_api a = Inr (od, h0)"
    and "get_forecast a = Inr (out, h)"
    and "j < length od"
    and "temps = map (\<lambda>r. temperature (h0 ! r)) (snd (od ! j))"
    and "f = h ! (out ! Suc j)"
  shows "temperature_min f \<le> temperature_max f \<and>
         temperature_max f = Max (set (- 100 # temps)) \<and>
         temperature_min f = Min (set (100 # temps)) \<and>
         ((\<exists>t\<in>set temps. - 100 \<le> t) \<and> (\<exists>t\<in>set temps. t \<le> 100) \<longrightarrow>
            temperature_max f = Max (set temps) \<and> temperature_min f = Min (set temps) \<and>
            Min (set temps) \<le> temperature_min f \<and> temperature_max f \<le> Max (set temps))"
proof -
  have ok: "day_groups_ok od h0" by (rule get_all_groups [OF assms(1)])
  have "od ! j \<in> set od" using assms(3) by simp
  then have "snd (od ! j) \<noteq> []" using ok by (simp add: day_groups_ok_def)
  then have ne: "temps \<noteq> []" by (simp add: assms(4))
  have "f = day_summary (map ((!) h0) (snd (od ! j))) (h0 ! noon_choice h0 (snd (od ! j)))"
    unfolding assms(5) using get_forecast_tl(4,5) [OF assms(1,2,3)] by simp
  then have mx: "temperature_max f = Max (set (- 100 # temps))"
    and mn: "temperature_min f = Min (set (100 # temps))"
    by (simp_all add: day_summary_def assms(4) comp_def)
  obtain t where t: "t \<in> set temps" using ne by (cases temps) auto
  have "Min (set (100 # temps)) \<le> t" "t \<le> Max (set (- 100 # temps))"
    using t by (simp_all add: Min_le Max_ge)
  then have le: "temperature_min f \<le> temperature_max f" using mx mn by simp
  have fin: "finite (set temps)" "set temps \<noteq> {}" using ne by simp_all
  have within: "temperature_max f = Max (set temps) \<and> temperature_min f = Min (set temps) \<and>
      Min (set temps) \<le> temperature_min f \<and> temperature_max f \<le> Max (set temps)"
    if lo: "\<exists>t\<in>set temps. - 100 \<le> t" and hi: "\<exists>t\<in>set temps. t \<le> 100"
  proof -
    obtain t1 where t1: "t1 \<in> set temps" "- 100 \<le> t1" using lo by blast
    obtain t2 where t2: "t2 \<in> set temps" "t2 \<le> 100" using hi by blast
    have "t1 \<le> Max (set temps)" "Min (set temps) \<le> t2"
      using t1(1) t2(1) by (simp_all add: Max_ge Min_le)
    then have "- 100 \<le> Max (set temps)" "Min (set temps) \<le> 100"
      using t1(2) t2(2) by linarith+
    then have "max (- 100) (Max (set temps)) = Max (set temps)"
      "min 100 (Min (set temps)) = Min (set temps)"
      by simp_all
    moreover have "Max (insert (- 100) (set temps)) = max (- 100) (Max (set temps))"
      by (rule Max_insert [OF fin])
    moreover have "Min (insert 100 (set temps)) = min 100 (Min (set temps))"
      by (rule Min_insert [OF fin])
    ultimately have "Max (insert (- 100) (set temps)) = Max (set temps)"
      "Min (insert 100 (set temps)) = Min (set temps)"
      by (simp_all only:)
    then have "temperature_max f = Max (set temps)" "temperature_min f = Min (set temps)"
      using mx mn by (simp_all only: list.set)
    then show ?thesis by simp
  qed
  show ?thesis using le mx mn within by blast
qed

theorem day_temperature_extrema_witness:
  "get_all_forecast_from_api no_noon =
     Inr ([(1, [0, 1])],
          [sample_forecast 5 80 1 1 (jan 1 10 0), sample_forecast 7 81 1 1 (jan 1 11 0)]) \<and>
   (0::nat) < length [(1::int, [0::nat, 1])] \<and>
   (5::int) \<in> set [5, 7] \<and> - 100 \<le> (5::int) \<and> (5::int) \<le> 100 \<and>
   temperature_max (result_values (get_forecast no_noon) ! Suc 0) = Max (set [5, 7]) \<and>
   temperature_min (result_values (get_forecast no_noon) ! Suc 0) = Min (set [5, 7]) \<and>
   temperature_min (result_values (get_forecast no_noon) ! Suc 0)
     \<le> temperature_max (result_values (get_forecast no_noon) ! Suc 0)"
  using day_temperature_extrema [OF no_noon_all no_noon_forecast, of 0 "[5, 7]"
      "result_values (get_forecast no_noon) ! Suc 0"] no_noon_all
  by (simp add: no_noon_forecast result_values_def sample_forecast_def)

text \<open>
  C7 as stated fails on \<open>hot_day\<close>: the day's only rounded temperature is 150, and the
  aggregated entry has \<open>temperature_min = 100\<close>, below the minimum of the day's rounded
  temperatures.
\<close>

theorem hot_day_minimum_below_samples:
  "get_all_forecast_from_api hot_day =
     Inr ([(1, [0])], [sample_forecast 150 80 1 1 (jan 1 12 0)]) \<and>
   temperature (sample_forecast 150 80 1 1 (jan 1 12 0)) = 150 \<and>
   map temperature_min (result_values (get_forecast hot_day)) = [150, 100] \<and>
   map temperature_max (result_values (get_forecast hot_day)) = [150, 150]"
  using hot_day_all
  by (simp add: hot_day_forecast result_values_def sample_forecast_def)

text \<open>
  C8. For a non-empty time series on which the transform succeeds, the first output
  element is a new object (its address is beyond all raw samples, and it is none of the
  later output elements) that, after the whole aggregation pass, still holds exactly the
  object built from the first entry alone: the first entry's parameters read into unbound
  variables, with the time window of one hour.
\<close>

theorem first_output_is_copy_of_first_entry:
  assumes "get_all_forecast_from_api a = Inr (od, h0)"
    and "get_forecast a = Inr (out, h)"
    and "timeSeries a = Some (e # es)"
  shows "out \<noteq> [] \<and> hd out = length h0 \<and> hd out \<notin> set (tl out) \<and>
         h ! hd out = h0 ! 0 \<and>
         (\<exists>t l. strptime (validTime e) = Some t \<and>
                read_params no_locals (parameters e) = Inr l \<and>
                build_forecast l 1 t = Some (h ! hd out))"
proof -
  have od: "od \<noteq> []" and first: "hd (snd (hd od)) = 0"
    and built: "\<exists>t l. strptime (validTime e) = Some t \<and>
        read_params no_locals (parameters e) = Inr l \<and> build_forecast l 1 t = Some (h0 ! 0)"
    using get_all_first [OF assms(1,3)] by simp_all
  have out: "out = length h0 # tl out" by (rule get_forecast_tl(2) [OF assms(1,2) od])
  then have hd: "hd out = length h0" by (metis list.sel(1))
  have ne: "out \<noteq> []" using out by auto
  have copy: "h ! hd out = h0 ! 0"
    using get_forecast_tl(3) [OF assms(1,2) od] by (simp add: hd first)
  have ok: "day_groups_ok od h0" by (rule get_all_groups [OF assms(1)])
  have "length h0 \<notin> set (tl out)"
  proof
    assume "length h0 \<in> set (tl out)"
    then obtain j where "j < length (tl out)" and eq: "tl out ! j = length h0"
      by (metis in_set_conv_nth)
    then have j: "j < length od" using get_forecast_tl(1) [OF assms(1,2)] by simp
    let ?rs = "snd (od ! j)"
    show False
    proof (cases "filter (noon_hour h0) ?rs = []")
      case True
      then have rep: "tl out ! j = hd ?rs" by (rule get_forecast_tl(6) [OF assms(1,2) j])
      have g: "od ! j \<in> set od" using j by simp
      then have "?rs \<noteq> []" using ok by (simp add: day_groups_ok_def)
      then have "hd ?rs \<in> set ?rs" by simp
      then have "hd ?rs < length h0" by (rule day_groups_ok_below [OF ok g])
      then show False using rep eq by simp
    next
      case False
      then have "length h0 + 1 \<le> tl out ! j" by (rule get_forecast_tl(7) [OF assms(1,2) j])
      then show False using eq by simp
    qed
  qed
  then show ?thesis using ne hd copy built by simp
qed

theorem first_output_is_copy_of_first_entry_witness:
  "get_all_forecast_from_api no_noon =
     Inr ([(1, [0, 1])],
          [sample_forecast 5 80 1 1 (jan 1 10 0), sample_forecast 7 81 1 1 (jan 1 11 0)]) \<and>
   get_forecast no_noon =
     Inr ([2, 0],
          [(sample_forecast 5 80 1 1 (jan 1 10 0))
             \<lparr>temperature_max := 7, temperature_min := 5, total_precipitation := 2,
              mean_precipitation := 1 / 12\<rparr>,
           sample_forecast 7 81 1 1 (jan 1 11 0), sample_forecast 5 80 1 1 (jan 1 10 0)]) \<and>
   timeSeries no_noon =
     Some (\<lparr>validTime = ''2024-01-01T10:00:00Z'', parameters = sample_parameters 5 80 1\<rparr> #
           [\<lparr>validTime = ''2024-01-01T11:00:00Z'', parameters = sample_parameters 7 81 1\<rparr>]) \<and>
   hd [2::nat, 0] = length [sample_forecast 5 80 1 1 (jan 1 10 0),
                            sample_forecast 7 81 1 1 (jan 1 11 0)] \<and>
   hd [2::nat, 0] \<notin> set (tl [2, 0]) \<and>
   (\<exists>t l. strptime ''2024-01-01T10:00:00Z'' = Some t \<and>
          read_params no_locals (sample_parameters 5 80 1) = Inr l \<and>
          build_forecast l 1 t = Some (sample_forecast 5 80 1 1 (jan 1 10 0)))"
  using first_output_is_copy_of_first_entry [OF no_noon_all no_noon_forecast, of
      "\<lparr>validTime = ''2024-01-01T10:00:00Z'', parameters = sample_parameters 5 80 1\<rparr>"
      "[\<lparr>validTime = ''2024-01-01T11:00:00Z'', parameters = sample_parameters 7 81 1\<rparr>]"]
    no_noon_all no_noon_forecast
  by (simp add: no_noon_def)

text \<open>
  C9. For every entry that carries a parameter \<^verbatim>\<open>tcc_mean\<close> (the last one counts when
  there are several), with \<open>octa\<close> the integer value of its first value, the object
  stored for the entry has cloudiness \<open>round(100 * octa / 8)\<close> when \<open>0 \<le> octa \<le> 8\<close>
  and 100 otherwise. The rounding is to the nearest integer, a tie to the even one: the
  percentages for 0 to 8 octas are 0, 12, 25, 38, 50, 62, 75, 88 and 100; in particular
  octa 0, 4 and 8 give 0, 50 and 100, and octa 9 and -1 give 100.
\<close>

theorem cloudiness_from_octas:
  assumes "get_all_forecast_from_api a = Inr (od, h0)"
    and "timeSeries a = Some ts"
    and "i < length ts"
    and "tcc = filter (\<lambda>p. name p = ''tcc_mean'') (parameters (ts ! i))"
    and "tcc \<noteq> []"
    and "values (last tcc) = v # vs"
    and "octa = py_int v"
  shows "cloudiness (h0 ! i) = octa_to_cloudiness octa \<and>
         octa_to_cloudiness octa =
           (if 0 \<le> octa \<and> octa \<le> 8 then py_round (100 * of_int octa / 8) else 100) \<and>
         octa_to_cloudiness 0 = 0 \<and> octa_to_cloudiness 4 = 50 \<and> octa_to_cloudiness 8 = 100 \<and>
         octa_to_cloudiness 9 = 100 \<and> octa_to_cloudiness (- 1) = 100 \<and>
         (0 \<le> octa \<and> octa \<le> 8 \<longrightarrow>
            cloudiness (h0 ! i) = [0, 12, 25, 38, 50, 62, 75, 88, 100] ! nat octa \<and>
            \<bar>8 * cloudiness (h0 ! i) - 100 * octa\<bar> \<le> 4 \<and>
            (\<bar>8 * cloudiness (h0 ! i) - 100 * octa\<bar> = 4 \<longrightarrow> even (cloudiness (h0 ! i)))) \<and>
         (\<not> (0 \<le> octa \<and> octa \<le> 8) \<longrightarrow> cloudiness (h0 ! i) = 100) \<and>
         map octa_to_cloudiness [0, 1, 2, 3, 4, 5, 6, 7, 8] =
           [0, 12, 25, 38, 50, 62, 75, 88, 100]"
proof -
  from assms(1,2) obtain st where st: "process_entries initial_state ts = Inr st"
    and h0: "h0 = objects st"
    by (auto elim: get_all_forecast_from_api_Inr)
  obtain st0 st1 where e: "process_entry st0 (ts ! i) = Inr st1"
    and nth: "objects st ! (length (objects initial_state) + i) = last (objects st1)"
    using process_entries_nth [OF st assms(3)] by blast
  from e obtain t l obj where l: "read_params (vars st0) (parameters (ts ! i)) = Inr l"
    and b: "build_forecast l
       (case last_time st0 of None \<Rightarrow> total_hours_last_forecast st0
        | Some lt \<Rightarrow> of_int (seconds (datetime_sub t lt)) / 60 / 60) t = Some obj"
    and st1: "st1 = \<lparr>vars = l,
           total_hours_last_forecast =
             (case last_time st0 of None \<Rightarrow> total_hours_last_forecast st0
              | Some lt \<Rightarrow> of_int (seconds (datetime_sub t lt)) / 60 / 60),
           last_time = Some t,
           forecasts_ordered = add_to_day (forecasts_ordered st0) (day t) (length (objects st0)),
           objects = objects st0 @ [obj]\<rparr>"
    by (rule process_entry_Inr)
  have "h0 ! i = obj" using nth by (simp add: h0 st1 initial_state_def)
  moreover have "var_cloudiness l = Some (cloudiness obj)"
    by (rule build_forecast_cloudiness [OF b])
  moreover have "var_cloudiness l = Some (octa_to_cloudiness (py_int v))"
    using read_params_cloudiness [OF l] assms(4,5,6) by simp
  ultimately have stored: "cloudiness (h0 ! i) = octa_to_cloudiness octa"
    by (simp add: assms(7))
  have vals: "octa_to_cloudiness 0 = 0" "octa_to_cloudiness 1 = 12" "octa_to_cloudiness 2 = 25"
    "octa_to_cloudiness 3 = 38" "octa_to_cloudiness 4 = 50" "octa_to_cloudiness 5 = 62"
    "octa_to_cloudiness 6 = 75" "octa_to_cloudiness 7 = 88" "octa_to_cloudiness 8 = 100"
    by code_simp+
  have table: "map octa_to_cloudiness [0, 1, 2, 3, 4, 5, 6, 7, 8] =
      [0, 12, 25, 38, 50, 62, 75, 88, 100]"
    by (simp only: list.map vals)
  have outside: "octa_to_cloudiness 9 = 100" "octa_to_cloudiness (- 1) = 100"
    by (simp_all add: octa_to_cloudiness_def)
  have inside: "octa_to_cloudiness octa = [0, 12, 25, 38, 50, 62, 75, 88, 100] ! nat octa \<and>
      \<bar>8 * octa_to_cloudiness octa - 100 * octa\<bar> \<le> 4 \<and>
      (\<bar>8 * octa_to_cloudiness octa - 100 * octa\<bar> = 4 \<longrightarrow> even (octa_to_cloudiness octa))"
    if "0 \<le> octa \<and> octa \<le> 8"
  proof -
    have "octa \<in> set [0..8]" using that by simp
    moreover have "[0..8] = [0, 1, 2, 3, 4, 5, 6, 7, 8::int]" by code_simp
    ultimately have "octa = 0 \<or> octa = 1 \<or> octa = 2 \<or> octa = 3 \<or> octa = 4 \<or>
        octa = 5 \<or> octa = 6 \<or> octa = 7 \<or> octa = 8"
      by simp
    then show ?thesis by (elim disjE) (simp_all add: vals)
  qed
  have other: "octa_to_cloudiness octa = 100" if "\<not> (0 \<le> octa \<and> octa \<le> 8)"
    unfolding octa_to_cloudiness_def using that by (rule if_not_P)
  have formula: "octa_to_cloudiness octa =
      (if 0 \<le> octa \<and> octa \<le> 8 then py_round (100 * of_int octa / 8) else 100)"
    by (simp add: octa_to_cloudiness_def)
  show ?thesis
    unfolding stored
  proof (intro conjI impI)
    show "octa_to_cloudiness octa = octa_to_cloudiness octa" by (rule refl)
    show "octa_to_cloudiness octa =
      (if 0 \<le> octa \<and> octa \<le> 8 then py_round (100 * of_int octa / 8) else 100)"
      by (rule formula)
    show "octa_to_cloudiness 0 = 0" "octa_to_cloudiness 4 = 50" "octa_to_cloudiness 8 = 100"
      by (rule vals)+
    show "octa_to_cloudiness 9 = 100" "octa_to_cloudiness (- 1) = 100" by (rule outside)+
    show "octa_to_cloudiness octa = [0, 12, 25, 38, 50, 62, 75, 88, 100] ! nat octa"
      if "0 \<le> octa \<and> octa \<le> 8" using inside [OF that] by blast
    show "\<bar>8 * octa_to_cloudiness octa - 100 * octa\<bar> \<le> 4"
      if "0 \<le> octa \<and> octa \<le> 8" using inside [OF that] by blast
    show "even (octa_to_cloudiness octa)"
      if "0 \<le> octa \<and> octa \<le> 8" "\<bar>8 * octa_to_cloudiness octa - 100 * octa\<bar> = 4"
      using inside [OF that(1)] that(2) by blast
    show "octa_to_cloudiness octa = 100" if "\<not> (0 \<le> octa \<and> octa \<le> 8)"
      by (rule other [OF that])
    show "map octa_to_cloudiness [0, 1, 2, 3, 4, 5, 6, 7, 8] =
      [0, 12, 25, 38, 50, 62, 75, 88, 100]" by (rule table)
  qed
qed

theorem cloudiness_from_octas_witness:
  "get_all_forecast_from_api three_octas =
     Inr ([(1, [0])], [(sample_forecast 5 80 1 1 (jan 1 12 0))\<lparr>cloudiness := 38\<rparr>]) \<and>
   filter (\<lambda>p. name p = ''tcc_mean'') (parameters (the (timeSeries three_octas) ! 0))
     = [sample_param ''tcc_mean'' 4, sample_param ''tcc_mean'' 3] \<and>
   values (last [sample_param ''tcc_mean'' 4, sample_param ''tcc_mean'' 3]) = 3 # [] \<and>
   py_int 3 = 3 \<and>
   cloudiness ((sample_forecast 5 80 1 1 (jan 1 12 0))\<lparr>cloudiness := 38\<rparr>) =
     py_round (100 * 3 / 8) \<and>
   py_round (100 * 3 / 8) = [0, 12, 25, 38, 50, 62, 75, 88, 100] ! nat 3 \<and>
   py_round (100 * 3 / 8) = 38"
proof -
  have ts: "timeSeries three_octas = Some (the (timeSeries three_octas))"
    "0 < length (the (timeSeries three_octas))"
    by (simp_all add: three_octas_def)
  have tcc: "[sample_param ''tcc_mean'' 4, sample_param ''tcc_mean'' 3] =
      filter (\<lambda>p. name p = ''tcc_mean'') (parameters (the (timeSeries three_octas) ! 0))"
    by (simp add: three_octas_def sample_parameters_def sample_param_def)
  have v: "values (last [sample_param ''tcc_mean'' 4, sample_param ''tcc_mean'' 3]) = 3 # []"
    by (simp add: sample_param_def)
  have octa: "(3::int) = py_int 3" by (simp add: py_int_def)
  have ne: "[sample_param ''tcc_mean'' 4, sample_param ''tcc_mean'' 3] \<noteq> []" by simp
  have "py_round (100 * 3 / 8) = 38" by code_simp
  then show ?thesis
    using cloudiness_from_octas [OF three_octas_all ts tcc ne v octa] three_octas_all v octa
      tcc [symmetric]
    by (simp add: octa_to_cloudiness_def)
qed

text \<open>
  C10: in every aggregated day entry of the output (every element after the first),
  \<open>mean_precipitation\<close> is \<open>total_precipitation / 24\<close>.
\<close>

theorem mean_precipitation_is_total_over_24:
  assumes "get_forecast a = Inr (out, h)" and "r \<in> set (tl out)"
  shows "mean_precipitation (h ! r) = total_precipitation (h ! r) / 24"
proof -
  from assms(1) obtain od h0 where all: "get_all_forecast_from_api a = Inr (od, h0)"
    by (rule get_forecast_needs_all)
  from assms(2) obtain j where j: "j < length (tl out)" and r: "r = tl out ! j"
    by (metis in_set_conv_nth)
  have "j < length od" using j get_forecast_tl(1) [OF all assms(1)] by simp
  then have "h ! r = day_summary (map ((!) h0) (snd (od ! j))) (h0 ! noon_choice h0 (snd (od ! j)))"
    unfolding r by (rule get_forecast_tl(5) [OF all assms(1)])
  then show ?thesis by (simp add: day_summary_def)
qed

theorem mean_precipitation_is_total_over_24_witness:
  "get_forecast two_noons =
     Inr ([2, 4],
          [sample_forecast 5 80 1 1 (jan 1 12 0), sample_forecast 7 99 1 (1 / 2) (jan 1 12 30),
           sample_forecast 5 80 1 1 (jan 1 12 0), sample_forecast 5 80 1 1 (jan 1 12 0),
           (sample_forecast 7 99 1 (1 / 2) (jan 1 12 30))
             \<lparr>temperature_max := 7, temperature_min := 5, total_precipitation := 3 / 2,
              mean_precipitation := 1 / 16\<rparr>]) \<and>
   (4::nat) \<in> set (tl [2, 4]) \<and>
   mean_precipitation ((sample_forecast 7 99 1 (1 / 2) (jan 1 12 30))
             \<lparr>temperature_max := 7, temperature_min := 5, total_precipitation := 3 / 2,
              mean_precipitation := 1 / 16\<rparr>) =
   total_precipitation ((sample_forecast 7 99 1 (1 / 2) (jan 1 12 30))
             \<lparr>temperature_max := 7, temperature_min := 5, total_precipitation := 3 / 2,
              mean_precipitation := 1 / 16\<rparr>) / 24"
  using mean_precipitation_is_total_over_24 [OF two_noons_forecast, of 4] two_noons_forecast
  by simp


end
